theory Spec2Isabelle
  imports Main
begin

section \<open>VTrack: the vehicle status log of \<^verbatim>\<open>app.py\<close>\<close>

text \<open>
  The application keeps its records in one CSV file (\<^verbatim>\<open>CSV_PATH\<close>), written with
  \<^verbatim>\<open>csv.DictWriter\<close> and read with \<^verbatim>\<open>csv.DictReader\<close>, both in the default
  \<^verbatim>\<open>excel\<close> dialect: delimiter \<^verbatim>\<open>,\<close>, quote character \<^verbatim>\<open>"\<close>, doubled quotes,
  minimal quoting, line terminator CR LF, no escape character, not strict. The file is
  always opened with \<^verbatim>\<open>newline=""\<close>, so no newline translation happens on either
  side. The model follows the file content character by character.
\<close>

subsection \<open>Module constants and the file\<close>

definition FIELDNAMES :: "string list" where
  "FIELDNAMES = [''timestamp'', ''handled_by'', ''stock_id'', ''vin'',
                 ''current_location'', ''previous_location'']"

text \<open>
  The exceptions the modelled code can raise: \<^verbatim>\<open>OSError\<close> from \<^verbatim>\<open>open\<close>,
  \<^verbatim>\<open>ValueError\<close> from \<^verbatim>\<open>DictWriter._dict_to_list\<close>, \<^verbatim>\<open>csv.Error\<close> from the reader,
  \<^verbatim>\<open>UnicodeDecodeError\<close> from reading a file that is not UTF-8, \<^verbatim>\<open>TypeError\<close> from
  slicing \<^verbatim>\<open>None\<close>, \<^verbatim>\<open>IllegalCharacterError\<close> from the spreadsheet writer.
  The source defines no exception class of its own and has no \<^verbatim>\<open>try\<close>.
\<close>

datatype py_error =
  OSError | UnicodeDecodeError | ValueError | CsvError | TypeError | IllegalCharacterError

text \<open>
  The state of \<^verbatim>\<open>CSV_PATH\<close>: no such file; a file that \<^verbatim>\<open>open\<close> refuses (it exists,
  so \<^verbatim>\<open>CSV_PATH.exists()\<close> is true); a file whose bytes are not UTF-8, which opens but
  cannot be read as text; or a text file with its content.
\<close>

datatype csv_file = Absent | Unreadable | Undecodable | Content string

definition exists_file :: "csv_file \<Rightarrow> bool" where
  "exists_file f = (f \<noteq> Absent)"

definition delimiter :: char where "delimiter = CHR '',''"
definition quotechar :: char where "quotechar = CHR 0x22"
definition CR :: char where "CR = CHR 0x0D"
definition LF :: char where "LF = CHR 0x0A"
definition lineterminator :: string where "lineterminator = [CR, LF]"

subsection \<open>\<^verbatim>\<open>csv.writer\<close>\<close>

text \<open>
  \<^verbatim>\<open>join_append_data\<close> of \<^verbatim>\<open>_csv.c\<close>: a field is quoted when it contains the
  delimiter, the quote character or a character of the line terminator; a quote character
  inside is doubled. A record that is one empty field is written quoted.
\<close>

definition needs_quoting :: "string \<Rightarrow> bool" where
  "needs_quoting s = list_ex (\<lambda>c. c = delimiter \<or> c = quotechar \<or> c = CR \<or> c = LF) s"

fun join_append_data :: "string \<Rightarrow> string" where
  "join_append_data [] = []"
| "join_append_data (c # cs) =
     (if c = quotechar then [quotechar, quotechar] else [c]) @ join_append_data cs"

definition join_append :: "bool \<Rightarrow> string \<Rightarrow> string" where
  "join_append quoted s =
     (if quoted \<or> needs_quoting s then quotechar # join_append_data s @ [quotechar] else s)"

fun join_fields :: "string list \<Rightarrow> string" where
  "join_fields [] = []"
| "join_fields [f] = join_append False f"
| "join_fields (f # g # fs) = join_append False f @ delimiter # join_fields (g # fs)"

definition writer_writerow :: "string list \<Rightarrow> string" where
  "writer_writerow fs =
     (if fs = [[]] then join_append True [] else join_fields fs) @ lineterminator"

subsection \<open>Reading lines from a file opened with \<^verbatim>\<open>newline=""\<close>\<close>

text \<open>
  Iterating the file yields its lines with their endings kept; a line ends at LF, at CR LF
  or at a CR that no LF follows. A last line without ending is a line too.
\<close>

fun readline :: "string \<Rightarrow> string \<times> string" where
  "readline [] = ([], [])"
| "readline (c # cs) =
     (if c = LF then ([c], cs)
      else if c = CR then
        (case cs of [] \<Rightarrow> ([c], [])
         | d # ds \<Rightarrow> if d = LF then ([c, d], ds) else ([c], cs))
      else (case readline cs of (l, r) \<Rightarrow> (c # l, r)))"

lemma readline_shorter: "length (snd (readline cs)) \<le> length cs"
proof (induction cs)
  case Nil
  show ?case by simp
next
  case (Cons c cs)
  obtain l r where lr: "readline cs = (l, r)" by (cases "readline cs")
  with Cons show ?case by (simp split: list.splits)
qed

lemma readline_less: "length (snd (readline (c # cs))) < Suc (length cs)"
proof -
  obtain l r where lr: "readline cs = (l, r)" by (cases "readline cs")
  with readline_shorter [of cs] show ?thesis by (simp split: list.splits)
qed

function file_lines :: "string \<Rightarrow> string list" where
  "file_lines [] = []"
| "file_lines (c # cs) = fst (readline (c # cs)) # file_lines (snd (readline (c # cs)))"
  by pat_completeness auto
termination
  by (relation "measure length") (use readline_less in \<open>simp_all del: readline.simps\<close>)

subsection \<open>\<^verbatim>\<open>csv.reader\<close>\<close>

text \<open>
  The parser of \<^verbatim>\<open>_csv.c\<close> (\<^verbatim>\<open>parse_process_char\<close>) for this dialect. The states that
  only an escape character reaches are left out, the dialect having none. \<open>None\<close> is the
  end-of-line mark that \<^verbatim>\<open>Reader_iternext\<close> feeds after the characters of each line.

  \<open>field_limit\<close> is \<^verbatim>\<open>csv.field_size_limit()\<close>, which the application leaves at its
  default: \<^verbatim>\<open>parse_add_char\<close> raises \<^verbatim>\<open>csv.Error\<close> when the field already holds that
  many characters. The reader is that of CPython 3.11 and later, which takes a NUL
  character as any other character.
\<close>

definition field_limit :: int where
  "field_limit = 131072"

datatype parser_state =
  START_RECORD | START_FIELD | IN_FIELD | IN_QUOTED_FIELD | QUOTE_IN_QUOTED_FIELD | EAT_CRNL

record reader =
  state :: parser_state
  cur_fields :: "string list"
  cur_field :: string

definition parse_reset :: reader where
  "parse_reset = \<lparr>state = START_RECORD, cur_fields = [], cur_field = []\<rparr>"

definition parse_save_field :: "reader \<Rightarrow> reader" where
  "parse_save_field r = r\<lparr>cur_fields := cur_fields r @ [cur_field r], cur_field := []\<rparr>"

definition parse_add_char :: "reader \<Rightarrow> char \<Rightarrow> py_error + reader" where
  "parse_add_char r c =
     (if field_limit \<le> int (length (cur_field r)) then Inl CsvError
      else Inr (r\<lparr>cur_field := cur_field r @ [c]\<rparr>))"

text \<open>\<^verbatim>\<open>parse_add_char\<close>, then the assignment of the next state when it succeeds.\<close>

definition add_then :: "reader \<Rightarrow> char \<Rightarrow> parser_state \<Rightarrow> py_error + reader" where
  "add_then r c s =
     (case parse_add_char r c of Inl e \<Rightarrow> Inl e | Inr r' \<Rightarrow> Inr (r'\<lparr>state := s\<rparr>))"

definition end_of_record :: "reader \<Rightarrow> char option \<Rightarrow> reader" where
  "end_of_record r c =
     (parse_save_field r)\<lparr>state := (if c = None then START_RECORD else EAT_CRNL)\<rparr>"

definition is_newline :: "char option \<Rightarrow> bool" where
  "is_newline c = (c = Some LF \<or> c = Some CR)"

definition start_field :: "reader \<Rightarrow> char option \<Rightarrow> py_error + reader" where
  "start_field r c =
     (if is_newline c \<or> c = None then Inr (end_of_record r c)
      else if c = Some quotechar then Inr (r\<lparr>state := IN_QUOTED_FIELD\<rparr>)
      else if c = Some delimiter then Inr ((parse_save_field r)\<lparr>state := START_FIELD\<rparr>)
      else add_then r (the c) IN_FIELD)"

definition parse_process_char :: "reader \<Rightarrow> char option \<Rightarrow> py_error + reader" where
  "parse_process_char r c =
     (case state r of
        START_RECORD \<Rightarrow>
          (if c = None then Inr r
           else if is_newline c then Inr (r\<lparr>state := EAT_CRNL\<rparr>)
           else start_field r c)
      | START_FIELD \<Rightarrow> start_field r c
      | IN_FIELD \<Rightarrow>
          (if is_newline c \<or> c = None then Inr (end_of_record r c)
           else if c = Some delimiter then Inr ((parse_save_field r)\<lparr>state := START_FIELD\<rparr>)
           else parse_add_char r (the c))
      | IN_QUOTED_FIELD \<Rightarrow>
          (if c = None then Inr r
           else if c = Some quotechar then Inr (r\<lparr>state := QUOTE_IN_QUOTED_FIELD\<rparr>)
           else parse_add_char r (the c))
      | QUOTE_IN_QUOTED_FIELD \<Rightarrow>
          (if c = Some quotechar then add_then r quotechar IN_QUOTED_FIELD
           else if c = Some delimiter then Inr ((parse_save_field r)\<lparr>state := START_FIELD\<rparr>)
           else if is_newline c \<or> c = None then Inr (end_of_record r c)
           else add_then r (the c) IN_FIELD)
      | EAT_CRNL \<Rightarrow>
          (if is_newline c then Inr r
           else if c = None then Inr (r\<lparr>state := START_RECORD\<rparr>)
           else Inl CsvError))"

text \<open>The characters of one line, then the end-of-line mark.\<close>

fun parse_line :: "reader \<Rightarrow> string \<Rightarrow> py_error + reader" where
  "parse_line r [] = parse_process_char r None"
| "parse_line r (c # cs) =
     (case parse_process_char r (Some c) of
        Inl e \<Rightarrow> Inl e
      | Inr r' \<Rightarrow> parse_line r' cs)"

text \<open>
  \<^verbatim>\<open>list(reader)\<close>: \<^verbatim>\<open>Reader_iternext\<close> takes lines until the parser is back in
  \<open>START_RECORD\<close> and returns the fields; every call starts from \<open>parse_reset\<close>. When the
  lines run out inside a record, the record is returned if a field is open, and the
  iteration ends otherwise.
\<close>

fun reader_rows :: "reader \<Rightarrow> string list \<Rightarrow> py_error + string list list" where
  "reader_rows r [] =
     (if cur_field r \<noteq> [] \<or> state r = IN_QUOTED_FIELD
      then Inr [cur_fields (parse_save_field r)] else Inr [])"
| "reader_rows r (l # ls) =
     (case parse_line r l of
        Inl e \<Rightarrow> Inl e
      | Inr r' \<Rightarrow>
          if state r' = START_RECORD
          then (case reader_rows parse_reset ls of
                  Inl e \<Rightarrow> Inl e
                | Inr rows \<Rightarrow> Inr (cur_fields r' # rows))
          else reader_rows r' ls)"

definition csv_reader :: "string \<Rightarrow> py_error + string list list" where
  "csv_reader content = reader_rows parse_reset (file_lines content)"

subsection \<open>\<^verbatim>\<open>csv.DictReader\<close> and \<^verbatim>\<open>csv.DictWriter\<close>\<close>

text \<open>
  A row as \<^verbatim>\<open>DictReader\<close> returns it: a dict in insertion order whose values are strings
  or \<^verbatim>\<open>None\<close> (the \<^verbatim>\<open>restval\<close> of a short row), and, for a long row, the surplus
  values as a list under the key \<^verbatim>\<open>None\<close> (the \<^verbatim>\<open>restkey\<close>).
\<close>

record row =
  cols :: "(string \<times> string option) list"
  restkey :: "string list option"

fun dict_set :: "string \<Rightarrow> string option \<Rightarrow> (string \<times> string option) list
    \<Rightarrow> (string \<times> string option) list" where
  "dict_set k v [] = [(k, v)]"
| "dict_set k v ((k', v') # d) = (if k = k' then (k, v) # d else (k', v') # dict_set k v d)"

text \<open>\<^verbatim>\<open>row.get(key)\<close>: \<open>None\<close> for a missing key, \<open>Some None\<close> for the value \<^verbatim>\<open>None\<close>.\<close>

definition row_get :: "row \<Rightarrow> string \<Rightarrow> string option option" where
  "row_get d k = map_of (cols d) k"

definition make_row :: "string list \<Rightarrow> string list \<Rightarrow> row" where
  "make_row fieldnames vals =
     (let d = foldl (\<lambda>d (k, v). dict_set k (Some v) d) [] (zip fieldnames vals);
          lf = length fieldnames;
          lr = length vals
      in if lf < lr then \<lparr>cols = d, restkey = Some (drop lf vals)\<rparr>
         else if lf > lr
         then \<lparr>cols = foldl (\<lambda>d k. dict_set k None d) d (drop lr fieldnames), restkey = None\<rparr>
         else \<lparr>cols = d, restkey = None\<rparr>)"

text \<open>
  \<^verbatim>\<open>list(csv.DictReader(f))\<close>: the first row read gives the field names, and rows that
  are empty lists are skipped.
\<close>

definition DictReader :: "string \<Rightarrow> py_error + row list" where
  "DictReader content =
     (case csv_reader content of
        Inl e \<Rightarrow> Inl e
      | Inr [] \<Rightarrow> Inr []
      | Inr (fieldnames # rows) \<Rightarrow>
          Inr (map (make_row fieldnames) (filter (\<lambda>r. r \<noteq> []) rows)))"

text \<open>
  \<^verbatim>\<open>DictWriter._dict_to_list\<close> with \<^verbatim>\<open>extrasaction="raise"\<close>: a key outside the
  field names raises \<^verbatim>\<open>ValueError\<close>; a missing key gives the empty \<^verbatim>\<open>restval\<close>, and
  the writer writes \<^verbatim>\<open>None\<close> as the empty string.
\<close>

definition dict_to_list :: "row \<Rightarrow> py_error + string list" where
  "dict_to_list d =
     (if restkey d \<noteq> None \<or> list_ex (\<lambda>k. k \<notin> set FIELDNAMES) (map fst (cols d))
      then Inl ValueError
      else Inr (map (\<lambda>k. case row_get d k of Some (Some v) \<Rightarrow> v | _ \<Rightarrow> []) FIELDNAMES))"

definition writeheader :: string where
  "writeheader = writer_writerow FIELDNAMES"

text \<open>
  \<^verbatim>\<open>writer.writerows(remaining)\<close> onto the text written so far; the rows before a
  failing one have been written when the exception leaves the \<^verbatim>\<open>with\<close> block.
\<close>

fun writerows :: "row list \<Rightarrow> string \<Rightarrow> py_error option \<times> string" where
  "writerows [] out = (None, out)"
| "writerows (d # ds) out =
     (case dict_to_list d of
        Inl e \<Rightarrow> (Some e, out)
      | Inr vals \<Rightarrow> writerows ds (out @ writer_writerow vals))"

subsection \<open>The functions of \<^verbatim>\<open>app.py\<close>\<close>

text \<open>
  Every function takes the state of \<^verbatim>\<open>CSV_PATH\<close> and returns its result, or the
  uncaught exception, together with the state it leaves.
\<close>

definition init_csv :: "csv_file \<Rightarrow> csv_file" where
  "init_csv f = (if \<not> exists_file f then Content writeheader else f)"

text \<open>
  \<^verbatim>\<open>CSV_PATH.open("r", ...)\<close> and the reading of the text: \<^verbatim>\<open>open\<close> raises
  \<^verbatim>\<open>OSError\<close> on a file that is absent or refused, and the decoder raises
  \<^verbatim>\<open>UnicodeDecodeError\<close> while the reader takes the lines of a file that is not UTF-8.
\<close>

definition open_read :: "csv_file \<Rightarrow> py_error + string" where
  "open_read f =
     (case f of
        Absent \<Rightarrow> Inl OSError
      | Unreadable \<Rightarrow> Inl OSError
      | Undecodable \<Rightarrow> Inl UnicodeDecodeError
      | Content c \<Rightarrow> Inr c)"

fun previous_loop :: "string \<Rightarrow> string \<Rightarrow> row list \<Rightarrow> string option \<Rightarrow> string option" where
  "previous_loop vin stock_id [] previous = previous"
| "previous_loop vin stock_id (r # rows) previous =
     previous_loop vin stock_id rows
       (if row_get r ''vin'' = Some (Some vin) \<or> row_get r ''stock_id'' = Some (Some stock_id)
        then (case row_get r ''current_location'' of
                Some (Some loc) \<Rightarrow> if loc \<noteq> [] then Some loc else previous
              | _ \<Rightarrow> previous)
        else previous)"

definition find_previous_location :: "string \<Rightarrow> string \<Rightarrow> csv_file \<Rightarrow> py_error + string option" where
  "find_previous_location vin stock_id f =
     (if \<not> exists_file f then Inr None
      else case open_read f of
        Inl e \<Rightarrow> Inl e
      | Inr c \<Rightarrow>
          (case DictReader c of
             Inl e \<Rightarrow> Inl e
           | Inr rows \<Rightarrow> Inr (previous_loop vin stock_id rows None)))"

definition load_records :: "csv_file \<Rightarrow> (py_error + row list) \<times> csv_file" where
  "load_records f =
     (let f' = init_csv f
      in case open_read f' of
           Inl e \<Rightarrow> (Inl e, f')
         | Inr c \<Rightarrow> (DictReader c, f'))"

fun latest_loop :: "string \<Rightarrow> row list \<Rightarrow> row option \<Rightarrow> row option" where
  "latest_loop vin [] latest = latest"
| "latest_loop vin (r # rows) latest =
     latest_loop vin rows (if row_get r ''vin'' = Some (Some vin) then Some r else latest)"

definition find_latest_record_by_vin :: "string \<Rightarrow> csv_file \<Rightarrow> (py_error + row option) \<times> csv_file" where
  "find_latest_record_by_vin vin f =
     (case load_records f of
        (Inl e, f') \<Rightarrow> (Inl e, f')
      | (Inr rows, f') \<Rightarrow> (Inr (latest_loop vin rows None), f'))"

fun delete_loop :: "string \<Rightarrow> row list \<Rightarrow> int \<Rightarrow> row list \<Rightarrow> int \<times> row list" where
  "delete_loop vin [] removed remaining = (removed, remaining)"
| "delete_loop vin (r # rows) removed remaining =
     (if row_get r ''vin'' = Some (Some vin)
      then delete_loop vin rows (removed + 1) remaining
      else delete_loop vin rows removed (remaining @ [r]))"

definition delete_records_by_vin :: "string \<Rightarrow> csv_file \<Rightarrow> (py_error + int) \<times> csv_file" where
  "delete_records_by_vin vin f =
     (let f' = init_csv f
      in if \<not> exists_file f' then (Inr 0, f')
         else case open_read f' of
           Inl e \<Rightarrow> (Inl e, f')
         | Inr c \<Rightarrow>
             (case DictReader c of
                Inl e \<Rightarrow> (Inl e, f')
              | Inr rows \<Rightarrow>
                  (case delete_loop vin rows 0 [] of
                     (removed, remaining) \<Rightarrow>
                       (case writerows remaining writeheader of
                          (Some e, out) \<Rightarrow> (Inl e, Content out)
                        | (None, out) \<Rightarrow> (Inr removed, Content out)))))"

text \<open>
  \<^verbatim>\<open>_build_excel\<close> and \<^verbatim>\<open>_build_pdf\<close> write their artifact to a path of its own
  (\<^verbatim>\<open>XLSX_PATH\<close>, \<^verbatim>\<open>PDF_PATH\<close>). The artifact is modelled by the cells it is rendered
  from: the header row and one row of cells per record. In the spreadsheet a missing value
  is an empty cell (\<open>None\<close>); in the document every cell is cut to 50 characters.
  The writer behind \<^verbatim>\<open>to_excel\<close> raises \<^verbatim>\<open>IllegalCharacterError\<close> for a cell that
  holds a control character other than tab, line feed and carriage return.
\<close>

definition illegal_character :: "char \<Rightarrow> bool" where
  "illegal_character c =
     (of_char c \<in> set [0, 1, 2, 3, 4, 5, 6, 7, 8, 11, 12, 14, 15, 16, 17, 18, 19, 20, 21, 22,
        23, 24, 25, 26, 27, 28, 29, 30, 31 :: nat])"

definition illegal_cell :: "string option \<Rightarrow> bool" where
  "illegal_cell cell = (case cell of None \<Rightarrow> False | Some v \<Rightarrow> list_ex illegal_character v)"

definition excel_table :: "row list \<Rightarrow> string option list list" where
  "excel_table rows =
     map Some FIELDNAMES #
     map (\<lambda>r. map (\<lambda>k. case row_get r k of Some v \<Rightarrow> v | None \<Rightarrow> None) FIELDNAMES) rows"

definition build_excel :: "csv_file \<Rightarrow> (py_error + string option list list) \<times> csv_file" where
  "build_excel f =
     (case load_records f of
        (Inl e, f') \<Rightarrow> (Inl e, f')
      | (Inr rows, f') \<Rightarrow>
          (if list_ex (list_ex illegal_cell) (excel_table rows)
           then (Inl IllegalCharacterError, f')
           else (Inr (excel_table rows), f')))"

definition headers :: "string list" where
  "headers = [''Timestamp'', ''Handled By'', ''Stock ID'', ''VIN'',
              ''Current Location'', ''Previous Location'']"

fun pdf_cells :: "row \<Rightarrow> string list \<Rightarrow> py_error + string list" where
  "pdf_cells r [] = Inr []"
| "pdf_cells r (k # ks) =
     (case (case row_get r k of None \<Rightarrow> Some [] | Some v \<Rightarrow> v) of
        None \<Rightarrow> Inl TypeError
      | Some v \<Rightarrow>
          (case pdf_cells r ks of
             Inl e \<Rightarrow> Inl e
           | Inr cells \<Rightarrow> Inr (take 50 v # cells)))"

fun pdf_rows :: "row list \<Rightarrow> py_error + string list list" where
  "pdf_rows [] = Inr []"
| "pdf_rows (r # rows) =
     (case pdf_cells r FIELDNAMES of
        Inl e \<Rightarrow> Inl e
      | Inr cells \<Rightarrow>
          (case pdf_rows rows of
             Inl e \<Rightarrow> Inl e
           | Inr rest \<Rightarrow> Inr (cells # rest)))"

definition build_pdf :: "csv_file \<Rightarrow> (py_error + string list list) \<times> csv_file" where
  "build_pdf f =
     (case load_records f of
        (Inl e, f') \<Rightarrow> (Inl e, f')
      | (Inr rows, f') \<Rightarrow>
          (case pdf_rows rows of
             Inl e \<Rightarrow> (Inl e, f')
           | Inr body \<Rightarrow> (Inr (headers # body), f')))"

subsection \<open>The request handlers\<close>

text \<open>
  \<^verbatim>\<open>str.strip()\<close> removes the white space of Python at both ends; the characters of
  the model are the code points below 256.
\<close>

definition isspace :: "char \<Rightarrow> bool" where
  "isspace c = (of_char c \<in> set [9, 10, 11, 12, 13, 28, 29, 30, 31, 32, 133, 160 :: nat])"

definition strip :: "string \<Rightarrow> string" where
  "strip s = rev (dropWhile isspace (rev (dropWhile isspace s)))"

datatype response =
    RedirectResponse string nat
  | ValidationErrorResponse nat
  | SearchPage "string option" "row option" "string option"
  | FileResponse string

text \<open>
  \<^verbatim>\<open>CSV_PATH.open("a", ...)\<close> gives the file as it is once opened: an absent file is
  created empty. Text written to the open file goes after what the file holds; a file
  that is not UTF-8 stays so.
\<close>

definition open_append :: "csv_file \<Rightarrow> py_error + csv_file" where
  "open_append f =
     (case f of
        Absent \<Rightarrow> Inr (Content [])
      | Unreadable \<Rightarrow> Inl OSError
      | Undecodable \<Rightarrow> Inr Undecodable
      | Content c \<Rightarrow> Inr (Content c))"

definition write_text :: "csv_file \<Rightarrow> string \<Rightarrow> csv_file" where
  "write_text f text = (case f of Content c \<Rightarrow> Content (c @ text) | _ \<Rightarrow> f)"

text \<open>
  \<^verbatim>\<open>submit\<close>, the handler of \<^verbatim>\<open>POST /update\<close>. \<open>now\<close> stands for
  \<^verbatim>\<open>datetime.now().isoformat(timespec="seconds")\<close>, the reading of the server clock.
  The four parameters are declared \<^verbatim>\<open>Form(...)\<close>, required: the framework answers a
  request in which one of them is empty with status 422 and does not call the function
  (a field absent from the form is answered like an empty one).
\<close>

definition submit :: "string \<Rightarrow> string \<Rightarrow> string \<Rightarrow> string \<Rightarrow> string \<Rightarrow> csv_file
    \<Rightarrow> (py_error + response) \<times> csv_file" where
  "submit now handled_by vin stock_id current_location f =
     (if handled_by = [] \<or> vin = [] \<or> stock_id = [] \<or> current_location = []
      then (Inr (ValidationErrorResponse 422), f)
      else
       let handled_by = strip handled_by;
           vin = strip vin;
           stock_id = strip stock_id;
           current_location = strip current_location
       in if \<not> (handled_by \<noteq> [] \<and> vin \<noteq> [] \<and> stock_id \<noteq> [] \<and> current_location \<noteq> [])
          then (Inr (RedirectResponse ''/update?error=All%20fields%20are%20required.'' 303), f)
          else case find_previous_location vin stock_id f of
            Inl e \<Rightarrow> (Inl e, f)
          | Inr previous_location \<Rightarrow>
              (case open_append f of
                 Inl e \<Rightarrow> (Inl e, f)
               | Inr f' \<Rightarrow>
                   (case dict_to_list
                       \<lparr>cols = [(''timestamp'', Some now),
                                (''handled_by'', Some handled_by),
                                (''stock_id'', Some stock_id),
                                (''vin'', Some vin),
                                (''current_location'', Some current_location),
                                (''previous_location'',
                                   Some (case previous_location of None \<Rightarrow> [] | Some p \<Rightarrow> p))],
                        restkey = None\<rparr> of
                      Inl e \<Rightarrow> (Inl e, f')
                    | Inr vals \<Rightarrow>
                        (Inr (RedirectResponse ''/update?success=Saved%20update.'' 303),
                         write_text f' (writer_writerow vals)))))"

definition truthy :: "row \<Rightarrow> bool" where
  "truthy d = (cols d \<noteq> [] \<or> restkey d \<noteq> None)"

definition search :: "string \<Rightarrow> csv_file \<Rightarrow> (py_error + response) \<times> csv_file" where
  "search vin f =
     (let vin = strip vin
      in if vin = [] then (Inr (SearchPage None None None), f)
         else case find_latest_record_by_vin vin f of
           (Inl e, f') \<Rightarrow> (Inl e, f')
         | (Inr result, f') \<Rightarrow>
             (Inr (SearchPage
                (case result of
                   None \<Rightarrow> Some ''No records found for that VIN.''
                 | Some d \<Rightarrow> if truthy d then None else Some ''No records found for that VIN.'')
                result (Some vin)), f'))"

definition download_csv :: "csv_file \<Rightarrow> (py_error + response) \<times> csv_file" where
  "download_csv f = (Inr (FileResponse ''vehicle_status.csv''), init_csv f)"

definition download_excel :: "csv_file \<Rightarrow> (py_error + response) \<times> csv_file" where
  "download_excel f =
     (case build_excel f of
        (Inl e, f') \<Rightarrow> (Inl e, f')
      | (Inr _, f') \<Rightarrow> (Inr (FileResponse ''vehicle_status.xlsx''), f'))"

definition download_pdf :: "csv_file \<Rightarrow> (py_error + response) \<times> csv_file" where
  "download_pdf f =
     (case build_pdf f of
        (Inl e, f') \<Rightarrow> (Inl e, f')
      | (Inr _, f') \<Rightarrow> (Inr (FileResponse ''vehicle_status.pdf''), f'))"

subsection \<open>Records and the file that holds them\<close>

text \<open>
  An update record is the dict that \<^verbatim>\<open>submit\<close> writes: six strings under the six field
  names. \<open>to_row\<close> is that dict, \<open>entry_values\<close> its values in column order, and
  \<open>store_file rs\<close> the file that holds the records \<open>rs\<close>: the header that
  \<^verbatim>\<open>_init_csv\<close> writes, then one written row per record.
\<close>

record entry =
  e_timestamp :: string
  e_handled_by :: string
  e_stock_id :: string
  e_vin :: string
  e_current_location :: string
  e_previous_location :: string

definition entry_values :: "entry \<Rightarrow> string list" where
  "entry_values e = [e_timestamp e, e_handled_by e, e_stock_id e, e_vin e,
                     e_current_location e, e_previous_location e]"

definition to_row :: "entry \<Rightarrow> row" where
  "to_row e = \<lparr>cols = [(''timestamp'', Some (e_timestamp e)),
                       (''handled_by'', Some (e_handled_by e)),
                       (''stock_id'', Some (e_stock_id e)),
                       (''vin'', Some (e_vin e)),
                       (''current_location'', Some (e_current_location e)),
                       (''previous_location'', Some (e_previous_location e))],
               restkey = None\<rparr>"

definition store_file :: "entry list \<Rightarrow> string" where
  "store_file rs = writeheader @ concat (map (\<lambda>e. writer_writerow (entry_values e)) rs)"

text \<open>
  The append of \<^verbatim>\<open>submit\<close> on its own (the \<^verbatim>\<open>with\<close> block that opens the file in
  mode \<^verbatim>\<open>"a"\<close> and writes one row), for a record already built.
\<close>

definition append_record :: "entry \<Rightarrow> csv_file \<Rightarrow> (py_error + unit) \<times> csv_file" where
  "append_record e f =
     (case open_append f of
        Inl err \<Rightarrow> (Inl err, f)
      | Inr f' \<Rightarrow>
          (case dict_to_list (to_row e) of
             Inl err \<Rightarrow> (Inl err, f')
           | Inr vals \<Rightarrow> (Inr (), write_text f' (writer_writerow vals))))"

fun append_all :: "entry list \<Rightarrow> csv_file \<Rightarrow> (py_error + unit) \<times> csv_file" where
  "append_all [] f = (Inr (), f)"
| "append_all (e # es) f =
     (case append_record e f of
        (Inl err, f') \<Rightarrow> (Inl err, f')
      | (Inr _, f') \<Rightarrow> append_all es f')"

subsection \<open>Notions for the statements\<close>

text \<open>
  \<open>last_match P xs\<close> is the last element of \<open>xs\<close>, in the order of the list, that
  satisfies \<open>P\<close>. \<open>sample v s loc\<close> is a record with the given vin, stock id and current
  location, for the concrete cases.
\<close>

definition last_match :: "('a \<Rightarrow> bool) \<Rightarrow> 'a list \<Rightarrow> 'a option" where
  "last_match P xs = (case filter P xs of [] \<Rightarrow> None | y # ys \<Rightarrow> Some (last (y # ys)))"

definition sample :: "string \<Rightarrow> string \<Rightarrow> string \<Rightarrow> entry" where
  "sample v s loc = \<lparr>e_timestamp = ''2024-01-01T00:00:00'', e_handled_by = ''sam'',
     e_stock_id = s, e_vin = v, e_current_location = loc, e_previous_location = []\<rparr>"

text \<open>
  A file has the header when it begins with the row that \<^verbatim>\<open>writeheader\<close> writes.
\<close>

definition has_header :: "csv_file \<Rightarrow> bool" where
  "has_header f = (case f of Content c \<Rightarrow> take (length writeheader) c = writeheader | _ \<Rightarrow> False)"

text \<open>
  The three operations that change the file, and the file that a sequence of them leaves:
  \<^verbatim>\<open>_init_csv\<close>, the append of \<^verbatim>\<open>submit\<close> and \<^verbatim>\<open>_delete_records_by_vin\<close>.
\<close>

datatype store_op = Ensure_initialized | Append entry | Delete_by_vin string

fun apply_op :: "csv_file \<Rightarrow> store_op \<Rightarrow> csv_file" where
  "apply_op f Ensure_initialized = init_csv f"
| "apply_op f (Append e) = snd (append_record e f)"
| "apply_op f (Delete_by_vin v) = snd (delete_records_by_vin v f)"

definition run_ops :: "store_op list \<Rightarrow> csv_file \<Rightarrow> csv_file" where
  "run_ops ops f = foldl apply_op f ops"

text \<open>
  The previous location in the words of the specification, not of the code: the current
  location of the last record whose vin or stock id matches, \<open>None\<close> when none matches.
\<close>

definition claimed_previous_location :: "string \<Rightarrow> string \<Rightarrow> entry list \<Rightarrow> string option" where
  "claimed_previous_location v s rs =
     map_option e_current_location (last_match (\<lambda>e. e_vin e = v \<or> e_stock_id e = s) rs)"

text \<open>
  A field is within the limit when the reader takes it whole; a record fits when its six
  fields are. \<open>oversized\<close> is a text one character too long for the reader.
\<close>

definition within_limit :: "string \<Rightarrow> bool" where
  "within_limit f = (int (length f) \<le> field_limit)"

definition fits :: "entry \<Rightarrow> bool" where
  "fits e = list_all within_limit (entry_values e)"

definition oversized :: string where
  "oversized = replicate 131073 (CHR ''a'')"

section \<open>Reading back what the writer wrote\<close>

text \<open>
  Notions for the proofs: \<open>rd r c\<close> is the reader in state \<open>r\<close> before the text \<open>c\<close>;
  \<open>emit\<close> puts a finished record before the records that follow; a \<open>plain\<close> character
  is one that does not force quoting; \<open>after_field s q f\<close> is the parser state after the
  written form of the field \<open>f\<close>, started in state \<open>s\<close>.
\<close>

definition emit :: "string list \<Rightarrow> py_error + string list list \<Rightarrow> py_error + string list list" where
  "emit fs res = (case res of Inl e \<Rightarrow> Inl e | Inr rows \<Rightarrow> Inr (fs # rows))"

definition rd :: "reader \<Rightarrow> string \<Rightarrow> py_error + string list list" where
  "rd r c = reader_rows r (file_lines c)"

definition plain :: "char \<Rightarrow> bool" where
  "plain c = (c \<noteq> delimiter \<and> c \<noteq> quotechar \<and> c \<noteq> CR \<and> c \<noteq> LF)"

definition after_field :: "parser_state \<Rightarrow> bool \<Rightarrow> string \<Rightarrow> parser_state" where
  "after_field s q f =
     (if q \<or> needs_quoting f then QUOTE_IN_QUOTED_FIELD else if f = [] then s else IN_FIELD)"

lemma special_distinct:
  "delimiter \<noteq> quotechar" "delimiter \<noteq> CR" "delimiter \<noteq> LF"
  "quotechar \<noteq> delimiter" "quotechar \<noteq> CR" "quotechar \<noteq> LF"
  "CR \<noteq> delimiter" "CR \<noteq> quotechar" "CR \<noteq> LF"
  "LF \<noteq> delimiter" "LF \<noteq> quotechar" "LF \<noteq> CR"
  by (simp_all add: delimiter_def quotechar_def CR_def LF_def)

lemma file_lines_plain:
  assumes "c \<noteq> CR" "c \<noteq> LF" "cs \<noteq> []"
  shows "file_lines (c # cs) = (c # fst (readline cs)) # file_lines (snd (readline cs))"
proof -
  obtain l r where lr: "readline cs = (l, r)" by (cases "readline cs")
  with assms show ?thesis by simp
qed

lemma file_lines_nonempty:
  "cs \<noteq> [] \<Longrightarrow> file_lines cs = fst (readline cs) # file_lines (snd (readline cs))"
  by (cases cs) (simp_all del: readline.simps)

lemma rd_plain:
  assumes "c \<noteq> CR" "c \<noteq> LF" "cs \<noteq> []"
  shows "rd r (c # cs) =
    (case parse_process_char r (Some c) of Inl e \<Rightarrow> Inl e | Inr r' \<Rightarrow> rd r' cs)"
  unfolding rd_def file_lines_plain [OF assms] file_lines_nonempty [OF assms(3)]
  by (simp split: sum.splits)


lemmas ppc_defs = parse_process_char_def start_field_def end_of_record_def parse_save_field_def
  parse_add_char_def add_then_def is_newline_def

lemma rd_quoted_LF:
  "int (length a) < field_limit \<Longrightarrow>
   rd \<lparr>state = IN_QUOTED_FIELD, cur_fields = fl, cur_field = a\<rparr> (LF # cs) =
   rd \<lparr>state = IN_QUOTED_FIELD, cur_fields = fl, cur_field = a @ [LF]\<rparr> cs"
  by (simp add: rd_def ppc_defs special_distinct)

lemma rd_quoted_CR:
  assumes a: "int (length a) < field_limit"
  shows "rd \<lparr>state = IN_QUOTED_FIELD, cur_fields = fl, cur_field = a\<rparr> (CR # cs) =
   rd \<lparr>state = IN_QUOTED_FIELD, cur_fields = fl, cur_field = a @ [CR]\<rparr> cs"
proof (cases cs)
  case Nil
  then show ?thesis using a by (simp add: rd_def ppc_defs special_distinct)
next
  case (Cons d ds)
  show ?thesis
  proof (cases "d = LF")
    case True
    with Cons a show ?thesis
      by (simp add: rd_def ppc_defs special_distinct)
  next
    case False
    then have "file_lines (CR # d # ds) = [CR] # file_lines (d # ds)"
      by (subst file_lines.simps(2)) (simp del: file_lines.simps)
    with Cons a show ?thesis
      by (simp add: rd_def ppc_defs special_distinct del: file_lines.simps)
  qed
qed

lemma rd_quoted_char:
  assumes "c \<noteq> quotechar" and a: "int (length a) < field_limit"
  shows "rd \<lparr>state = IN_QUOTED_FIELD, cur_fields = fl, cur_field = a\<rparr> (c # cs) =
         rd \<lparr>state = IN_QUOTED_FIELD, cur_fields = fl, cur_field = a @ [c]\<rparr> cs"
proof -
  consider "c = LF" | "c = CR" | "c \<noteq> LF" "c \<noteq> CR" "cs = []" | "c \<noteq> LF" "c \<noteq> CR" "cs \<noteq> []"
    by blast
  then show ?thesis
  proof cases
    case 1 then show ?thesis using a by (simp add: rd_quoted_LF)
  next
    case 2 then show ?thesis using a by (simp add: rd_quoted_CR)
  next
    case 3 with assms show ?thesis by (simp add: rd_def ppc_defs)
  next
    case 4 with assms show ?thesis by (simp add: rd_plain ppc_defs)
  qed
qed

lemma rd_CRLF:
  "rd r (CR # LF # cs) =
    (case parse_process_char r (Some CR) of Inl e \<Rightarrow> Inl e
     | Inr r1 \<Rightarrow> (case parse_process_char r1 (Some LF) of Inl e \<Rightarrow> Inl e
     | Inr r2 \<Rightarrow> (case parse_process_char r2 None of Inl e \<Rightarrow> Inl e
     | Inr r3 \<Rightarrow> if state r3 = START_RECORD
          then emit (cur_fields r3) (rd parse_reset cs)
          else rd r3 cs)))"
  by (simp add: rd_def emit_def special_distinct split: sum.splits)


lemma needs_quoting_iff: "needs_quoting s = (\<not> list_all plain s)"
  by (induction s) (auto simp: needs_quoting_def plain_def)

lemma rd_in_field:
  assumes "list_all plain f" "cs \<noteq> []" "int (length a + length f) \<le> field_limit"
  shows "rd \<lparr>state = IN_FIELD, cur_fields = fl, cur_field = a\<rparr> (f @ cs) =
         rd \<lparr>state = IN_FIELD, cur_fields = fl, cur_field = a @ f\<rparr> cs"
  using assms
proof (induction f arbitrary: a)
  case Nil
  show ?case by simp
next
  case (Cons x f)
  then have px: "plain x" and f: "list_all plain f" by simp_all
  from px have x: "x \<noteq> delimiter" "x \<noteq> quotechar" "x \<noteq> CR" "x \<noteq> LF"
    by (simp_all add: plain_def)
  have "rd \<lparr>state = IN_FIELD, cur_fields = fl, cur_field = a\<rparr> (x # (f @ cs)) =
        rd \<lparr>state = IN_FIELD, cur_fields = fl, cur_field = a @ [x]\<rparr> (f @ cs)"
    using x Cons.prems(2,3) by (simp add: rd_plain ppc_defs)
  also have "\<dots> = rd \<lparr>state = IN_FIELD, cur_fields = fl, cur_field = (a @ [x]) @ f\<rparr> cs"
    using Cons.IH [OF f Cons.prems(2)] Cons.prems(3) by simp
  finally show ?case by simp
qed

lemma rd_in_quoted:
  assumes "cs \<noteq> []"
  shows "int (length a + length f) \<le> field_limit \<Longrightarrow>
         rd \<lparr>state = IN_QUOTED_FIELD, cur_fields = fl, cur_field = a\<rparr>
            (join_append_data f @ quotechar # cs) =
         rd \<lparr>state = QUOTE_IN_QUOTED_FIELD, cur_fields = fl, cur_field = a @ f\<rparr> cs"
proof (induction f arbitrary: a)
  case Nil
  show ?case using assms by (simp add: rd_plain ppc_defs special_distinct)
next
  case (Cons x f)
  show ?case
  proof (cases "x = quotechar")
    case True
    have "rd \<lparr>state = IN_QUOTED_FIELD, cur_fields = fl, cur_field = a\<rparr>
            (quotechar # quotechar # (join_append_data f @ quotechar # cs)) =
          rd \<lparr>state = IN_QUOTED_FIELD, cur_fields = fl, cur_field = a @ [quotechar]\<rparr>
            (join_append_data f @ quotechar # cs)"
      using Cons.prems by (simp add: rd_plain ppc_defs special_distinct)
    with True Cons.IH [of "a @ [x]"] Cons.prems show ?thesis by simp
  next
    case False
    with Cons.IH [of "a @ [x]"] Cons.prems show ?thesis by (simp add: rd_quoted_char)
  qed
qed

lemma rd_field:
  assumes "s = START_RECORD \<or> s = START_FIELD" "cs \<noteq> []" and lim: "within_limit f"
  shows "rd \<lparr>state = s, cur_fields = fl, cur_field = []\<rparr> (join_append q f @ cs) =
         rd \<lparr>state = after_field s q f, cur_fields = fl, cur_field = f\<rparr> cs"
proof (cases "q \<or> needs_quoting f")
  case True
  have "rd \<lparr>state = s, cur_fields = fl, cur_field = []\<rparr>
          (quotechar # (join_append_data f @ quotechar # cs)) =
        rd \<lparr>state = IN_QUOTED_FIELD, cur_fields = fl, cur_field = []\<rparr>
          (join_append_data f @ quotechar # cs)"
    using assms(1) by (auto simp: rd_plain ppc_defs special_distinct)
  with True show ?thesis
    using rd_in_quoted [OF assms(2), of "[]" f fl] lim
    by (simp add: join_append_def after_field_def within_limit_def)
next
  case False
  then have pl: "list_all plain f" and q: "\<not> q" by (simp_all add: needs_quoting_iff)
  show ?thesis
  proof (cases f)
    case Nil
    with False show ?thesis by (simp add: join_append_def after_field_def)
  next
    case (Cons x g)
    with pl have px: "plain x" and g: "list_all plain g" by simp_all
    from px have x: "x \<noteq> delimiter" "x \<noteq> quotechar" "x \<noteq> CR" "x \<noteq> LF"
      by (simp_all add: plain_def)
    have "rd \<lparr>state = s, cur_fields = fl, cur_field = []\<rparr> (x # (g @ cs)) =
          rd \<lparr>state = IN_FIELD, cur_fields = fl, cur_field = [x]\<rparr> (g @ cs)"
      using assms(1,2) x by (auto simp: rd_plain ppc_defs field_limit_def)
    also have "\<dots> = rd \<lparr>state = IN_FIELD, cur_fields = fl, cur_field = [x] @ g\<rparr> cs"
      using lim Cons by (intro rd_in_field [OF g assms(2)]) (simp add: within_limit_def)
    finally show ?thesis using False Cons by (simp add: join_append_def after_field_def)
  qed
qed


lemma after_field_cases:
  "s = START_RECORD \<or> s = START_FIELD \<Longrightarrow>
   after_field s q f = QUOTE_IN_QUOTED_FIELD \<or> after_field s q f = IN_FIELD \<or>
   after_field s q f = s \<and> f = [] \<and> \<not> q"
  by (auto simp: after_field_def)

lemma rd_field_delimiter:
  assumes s: "s = START_RECORD \<or> s = START_FIELD" and cs: "cs \<noteq> []" and lim: "within_limit f"
  shows "rd \<lparr>state = s, cur_fields = fl, cur_field = []\<rparr> (join_append q f @ delimiter # cs) =
         rd \<lparr>state = START_FIELD, cur_fields = fl @ [f], cur_field = []\<rparr> cs"
proof -
  have "rd \<lparr>state = s, cur_fields = fl, cur_field = []\<rparr> (join_append q f @ delimiter # cs) =
        rd \<lparr>state = after_field s q f, cur_fields = fl, cur_field = f\<rparr> (delimiter # cs)"
    by (rule rd_field [OF s _ lim]) simp
  also have "\<dots> = rd \<lparr>state = START_FIELD, cur_fields = fl @ [f], cur_field = []\<rparr> cs"
    using after_field_cases [OF s, of q f] s cs
    by (auto simp: rd_plain ppc_defs special_distinct)
  finally show ?thesis .
qed

lemma rd_field_CRLF:
  assumes s: "s = START_FIELD \<or> s = START_RECORD \<and> (q \<or> f \<noteq> [])" and lim: "within_limit f"
  shows "rd \<lparr>state = s, cur_fields = fl, cur_field = []\<rparr> (join_append q f @ CR # LF # cs) =
         emit (fl @ [f]) (rd parse_reset cs)"
proof -
  from s have s': "s = START_RECORD \<or> s = START_FIELD" by blast
  have "rd \<lparr>state = s, cur_fields = fl, cur_field = []\<rparr> (join_append q f @ CR # LF # cs) =
        rd \<lparr>state = after_field s q f, cur_fields = fl, cur_field = f\<rparr> (CR # LF # cs)"
    by (rule rd_field [OF s' _ lim]) simp
  also have "\<dots> = emit (fl @ [f]) (rd parse_reset cs)"
    using after_field_cases [OF s', of q f] s
    by (auto simp: rd_CRLF ppc_defs special_distinct)
  finally show ?thesis .
qed

lemma rd_join_fields:
  "list_all within_limit (f # fs) \<Longrightarrow>
   rd \<lparr>state = START_FIELD, cur_fields = fl, cur_field = []\<rparr> (join_fields (f # fs) @ CR # LF # cs) =
   emit (fl @ f # fs) (rd parse_reset cs)"
proof (induction fs arbitrary: f fl)
  case Nil
  then show ?case using rd_field_CRLF [of START_FIELD False f fl cs] by simp
next
  case (Cons g fs)
  then have lim: "within_limit f" "list_all within_limit (g # fs)" by simp_all
  have "rd \<lparr>state = START_FIELD, cur_fields = fl, cur_field = []\<rparr>
          (join_append False f @ delimiter # (join_fields (g # fs) @ CR # LF # cs)) =
        rd \<lparr>state = START_FIELD, cur_fields = fl @ [f], cur_field = []\<rparr>
          (join_fields (g # fs) @ CR # LF # cs)"
    by (rule rd_field_delimiter) (simp_all add: lim)
  with Cons.IH [OF lim(2), of "fl @ [f]"] show ?case by simp
qed

lemma rd_writerow:
  assumes "fs \<noteq> []" and lim: "list_all within_limit fs"
  shows "rd parse_reset (writer_writerow fs @ cs) =
         emit fs (rd parse_reset cs)"
proof (cases fs)
  case Nil
  with assms show ?thesis by simp
next
  case (Cons f gs)
  show ?thesis
  proof (cases gs)
    case Nil
    show ?thesis
    proof (cases "f = []")
      case True
      with Nil Cons show ?thesis
        using rd_field_CRLF [of START_RECORD True "[]" "[]" cs]
        by (simp add: writer_writerow_def lineterminator_def parse_reset_def within_limit_def
            field_limit_def)
    next
      case False
      with Nil Cons lim show ?thesis
        using rd_field_CRLF [of START_RECORD False f "[]" cs]
        by (simp add: writer_writerow_def lineterminator_def parse_reset_def)
    qed
  next
    case (Cons g hs)
    with lim \<open>fs = f # gs\<close> have lims: "within_limit f" "list_all within_limit (g # hs)"
      by simp_all
    have "rd \<lparr>state = START_RECORD, cur_fields = [], cur_field = []\<rparr>
            (join_append False f @ delimiter # (join_fields (g # hs) @ CR # LF # cs)) =
          rd \<lparr>state = START_FIELD, cur_fields = [] @ [f], cur_field = []\<rparr>
            (join_fields (g # hs) @ CR # LF # cs)"
      by (rule rd_field_delimiter) (simp_all add: lims)
    with Cons \<open>fs = f # gs\<close> rd_join_fields [OF lims(2), of "[f]" cs] show ?thesis
      by (simp add: writer_writerow_def lineterminator_def parse_reset_def)
  qed
qed

lemma rd_empty: "rd parse_reset [] = Inr []"
  by (simp add: rd_def parse_reset_def)

lemma rd_rows:
  "list_all (\<lambda>fs. fs \<noteq> [] \<and> list_all within_limit fs) rows \<Longrightarrow>
   rd parse_reset (concat (map writer_writerow rows)) = Inr rows"
  by (induction rows) (simp_all add: rd_empty rd_writerow emit_def)

lemma csv_reader_rows:
  "list_all (\<lambda>fs. fs \<noteq> [] \<and> list_all within_limit fs) rows \<Longrightarrow>
   csv_reader (concat (map writer_writerow rows)) = Inr rows"
  using rd_rows by (simp add: csv_reader_def rd_def)

lemma entry_values_nonempty: "entry_values e \<noteq> []"
  by (simp add: entry_values_def)

lemma store_file_rows:
  "store_file rs = concat (map writer_writerow (FIELDNAMES # map entry_values rs))"
  by (simp add: store_file_def writeheader_def comp_def)

lemma make_row_entry: "make_row FIELDNAMES (entry_values e) = to_row e"
  by (simp add: make_row_def FIELDNAMES_def entry_values_def to_row_def)

lemma FIELDNAMES_within_limit: "list_all within_limit FIELDNAMES"
  by (simp add: FIELDNAMES_def within_limit_def field_limit_def)

lemma csv_reader_store:
  assumes "list_all fits rs"
  shows "csv_reader (store_file rs) = Inr (FIELDNAMES # map entry_values rs)"
  unfolding store_file_rows
proof (rule csv_reader_rows)
  have "list_all (\<lambda>fs. fs \<noteq> [] \<and> list_all within_limit fs) (map entry_values rs)"
    using assms by (induction rs) (simp_all add: entry_values_nonempty fits_def)
  moreover have "FIELDNAMES \<noteq> []" by (simp add: FIELDNAMES_def)
  ultimately show "list_all (\<lambda>fs. fs \<noteq> [] \<and> list_all within_limit fs)
      (FIELDNAMES # map entry_values rs)"
    by (simp add: FIELDNAMES_within_limit)
qed

lemma DictReader_store: "list_all fits rs \<Longrightarrow> DictReader (store_file rs) = Inr (map to_row rs)"
proof -
  assume fit: "list_all fits rs"
  have "filter (\<lambda>r. r \<noteq> []) (map entry_values rs) = map entry_values rs"
    by (simp add: filter_id_conv entry_values_nonempty)
  then show ?thesis
    by (simp add: DictReader_def csv_reader_store [OF fit] make_row_entry comp_def)
qed

lemma store_file_Nil: "store_file [] = writeheader"
  by (simp add: store_file_def)

lemma store_file_append:
  "store_file (rs @ es) = store_file rs @ concat (map (\<lambda>e. writer_writerow (entry_values e)) es)"
  by (simp add: store_file_def)

lemma init_csv_simps:
  "init_csv Absent = Content (store_file [])"
  "init_csv (Content c) = Content c"
  "init_csv Unreadable = Unreadable"
  "init_csv Undecodable = Undecodable"
  by (simp_all add: init_csv_def exists_file_def store_file_Nil)

lemma load_records_store:
  "list_all fits rs \<Longrightarrow>
   load_records (Content (store_file rs)) = (Inr (map to_row rs), Content (store_file rs))"
  by (simp add: load_records_def init_csv_simps open_read_def DictReader_store)

lemma load_records_Absent: "load_records Absent = (Inr [], Content (store_file []))"
  using DictReader_store [of "[]"]
  by (simp add: load_records_def init_csv_simps open_read_def)

lemma row_get_to_row:
  "row_get (to_row e) ''timestamp'' = Some (Some (e_timestamp e))"
  "row_get (to_row e) ''handled_by'' = Some (Some (e_handled_by e))"
  "row_get (to_row e) ''stock_id'' = Some (Some (e_stock_id e))"
  "row_get (to_row e) ''vin'' = Some (Some (e_vin e))"
  "row_get (to_row e) ''current_location'' = Some (Some (e_current_location e))"
  "row_get (to_row e) ''previous_location'' = Some (Some (e_previous_location e))"
  by (simp_all add: row_get_def to_row_def)

lemma dict_to_list_to_row: "dict_to_list (to_row e) = Inr (entry_values e)"
  by (simp add: dict_to_list_def to_row_def FIELDNAMES_def row_get_def entry_values_def)

lemma append_record_store:
  "append_record e (Content (store_file rs)) = (Inr (), Content (store_file (rs @ [e])))"
  by (simp add: append_record_def open_append_def write_text_def dict_to_list_to_row
      store_file_append)

lemma append_all_store:
  "append_all es (Content (store_file rs)) = (Inr (), Content (store_file (rs @ es)))"
  by (induction es arbitrary: rs) (simp_all add: append_record_store)

lemma last_match_Nil: "last_match P [] = None"
  by (simp add: last_match_def)

lemma last_match_Cons:
  "last_match P (x # xs) =
     (case last_match P xs of Some y \<Rightarrow> Some y | None \<Rightarrow> if P x then Some x else None)"
  by (simp add: last_match_def split: list.splits)

lemma last_match_SomeD: "last_match P xs = Some y \<Longrightarrow> P y \<and> y \<in> set xs"
proof (induction xs)
  case Nil
  then show ?case by (simp add: last_match_Nil)
next
  case (Cons x xs)
  then show ?case
    by (cases "last_match P xs") (auto simp: last_match_Cons split: if_splits)
qed

lemma last_match_None_iff: "last_match P xs = None \<longleftrightarrow> (\<forall>x \<in> set xs. \<not> P x)"
  by (induction xs) (auto simp: last_match_Nil last_match_Cons split: option.splits)

lemma delete_loop_store:
  "delete_loop v (map to_row rs) n rem =
     (n + int (length (filter (\<lambda>e. e_vin e = v) rs)),
      rem @ map to_row (filter (\<lambda>e. e_vin e \<noteq> v) rs))"
  by (induction rs arbitrary: n rem) (simp_all add: row_get_to_row)

lemma writerows_store:
  "writerows (map to_row es) out =
     (None, out @ concat (map (\<lambda>e. writer_writerow (entry_values e)) es))"
  by (induction es arbitrary: out) (simp_all add: dict_to_list_to_row)

lemma delete_records_store:
  "list_all fits rs \<Longrightarrow>
   delete_records_by_vin v (Content (store_file rs)) =
     (Inr (int (length (filter (\<lambda>e. e_vin e = v) rs))),
      Content (store_file (filter (\<lambda>e. e_vin e \<noteq> v) rs)))"
  by (simp add: delete_records_by_vin_def init_csv_simps exists_file_def open_read_def
      DictReader_store delete_loop_store writerows_store)
    (simp add: store_file_def)

lemma delete_records_Absent:
  "delete_records_by_vin v Absent = (Inr 0, Content (store_file []))"
  using DictReader_store [of "[]"]
  by (simp add: delete_records_by_vin_def init_csv_simps exists_file_def open_read_def)
    (simp add: store_file_Nil)

lemma previous_loop_store:
  "previous_loop v s (map to_row rs) prev =
     (case last_match (\<lambda>e. (e_vin e = v \<or> e_stock_id e = s) \<and> e_current_location e \<noteq> []) rs of
        None \<Rightarrow> prev
      | Some e \<Rightarrow> Some (e_current_location e))"
  by (induction rs arbitrary: prev)
    (auto simp: last_match_Nil last_match_Cons row_get_to_row split: option.splits)

lemma find_previous_location_store:
  "list_all fits rs \<Longrightarrow>
   find_previous_location v s (Content (store_file rs)) =
     Inr (map_option e_current_location
       (last_match (\<lambda>e. (e_vin e = v \<or> e_stock_id e = s) \<and> e_current_location e \<noteq> []) rs))"
  by (simp add: find_previous_location_def exists_file_def open_read_def DictReader_store
      previous_loop_store split: option.splits)

lemma latest_loop_store:
  "latest_loop v (map to_row rs) latest =
     (case last_match (\<lambda>e. e_vin e = v) rs of None \<Rightarrow> latest | Some e \<Rightarrow> Some (to_row e))"
  by (induction rs arbitrary: latest)
    (auto simp: last_match_Nil last_match_Cons row_get_to_row split: option.splits)

lemma find_latest_store:
  "list_all fits rs \<Longrightarrow>
   find_latest_record_by_vin v (Content (store_file rs)) =
     (Inr (map_option to_row (last_match (\<lambda>e. e_vin e = v) rs)), Content (store_file rs))"
  by (simp add: find_latest_record_by_vin_def load_records_store latest_loop_store
      split: option.splits)

lemma fits_sample: "within_limit v \<Longrightarrow> within_limit s \<Longrightarrow> within_limit loc \<Longrightarrow> fits (sample v s loc)"
  by (simp add: fits_def sample_def entry_values_def within_limit_def field_limit_def)

lemma filter_fits: "list_all fits rs \<Longrightarrow> list_all fits (filter P rs)"
  by (induction rs) simp_all

text \<open>A field that is too long.\<close>

lemma rd_in_field_too_long:
  assumes cs: "cs \<noteq> []"
  shows "list_all plain f \<Longrightarrow> int (length a) \<le> field_limit \<Longrightarrow>
    field_limit < int (length a + length f) \<Longrightarrow>
    rd \<lparr>state = IN_FIELD, cur_fields = fl, cur_field = a\<rparr> (f @ cs) = Inl CsvError"
proof (induction f arbitrary: a)
  case Nil
  then show ?case by simp
next
  case (Cons x f)
  then have px: "plain x" and f: "list_all plain f" by simp_all
  from px have x: "x \<noteq> delimiter" "x \<noteq> quotechar" "x \<noteq> CR" "x \<noteq> LF"
    by (simp_all add: plain_def)
  show ?case
  proof (cases "field_limit \<le> int (length a)")
    case True
    then show ?thesis using x cs by (simp add: rd_plain ppc_defs)
  next
    case False
    then have "rd \<lparr>state = IN_FIELD, cur_fields = fl, cur_field = a\<rparr> (x # (f @ cs)) =
        rd \<lparr>state = IN_FIELD, cur_fields = fl, cur_field = a @ [x]\<rparr> (f @ cs)"
      using x cs by (simp add: rd_plain ppc_defs)
    moreover have "rd \<lparr>state = IN_FIELD, cur_fields = fl, cur_field = a @ [x]\<rparr> (f @ cs) =
        Inl CsvError"
      using False Cons.prems(3) by (intro Cons.IH [OF f]) simp_all
    ultimately show ?thesis by simp
  qed
qed

lemma rd_field_too_long:
  assumes s: "s = START_RECORD \<or> s = START_FIELD" and cs: "cs \<noteq> []"
    and f: "list_all plain f" and long: "field_limit < int (length f)"
  shows "rd \<lparr>state = s, cur_fields = fl, cur_field = []\<rparr> (f @ cs) = Inl CsvError"
proof (cases f)
  case Nil
  with long show ?thesis by (simp add: field_limit_def)
next
  case (Cons x g)
  with f have px: "plain x" and g: "list_all plain g" by simp_all
  from px have x: "x \<noteq> delimiter" "x \<noteq> quotechar" "x \<noteq> CR" "x \<noteq> LF"
    by (simp_all add: plain_def)
  have "rd \<lparr>state = s, cur_fields = fl, cur_field = []\<rparr> (x # (g @ cs)) =
      rd \<lparr>state = IN_FIELD, cur_fields = fl, cur_field = [x]\<rparr> (g @ cs)"
    using s cs x by (auto simp: rd_plain ppc_defs field_limit_def)
  moreover have "rd \<lparr>state = IN_FIELD, cur_fields = fl, cur_field = [x]\<rparr> (g @ cs) = Inl CsvError"
    using long Cons by (intro rd_in_field_too_long [OF cs g]) (simp_all add: field_limit_def)
  ultimately show ?thesis using Cons by simp
qed

text \<open>
  A written row in which a plain field is too long, after fields within the limit: the
  reader fails on it.
\<close>

lemma rd_join_fields_too_long:
  assumes f: "list_all plain f" and long: "field_limit < int (length f)"
  shows "list_all within_limit pre \<Longrightarrow>
    rd \<lparr>state = START_FIELD, cur_fields = fl, cur_field = []\<rparr>
      (join_fields (pre @ f # post) @ CR # LF # cs) = Inl CsvError"
proof (induction pre arbitrary: fl)
  case Nil
  have nq: "join_append False f = f"
    using f by (simp add: join_append_def needs_quoting_iff)
  show ?case
  proof (cases post)
    case Nil
    then show ?thesis
      using rd_field_too_long [OF _ _ f long, of START_FIELD "CR # LF # cs" fl] nq by simp
  next
    case (Cons g gs)
    then show ?thesis
      using rd_field_too_long [OF _ _ f long, of START_FIELD
          "delimiter # join_fields (g # gs) @ CR # LF # cs" fl] nq
      by simp
  qed
next
  case (Cons p pre)
  then have lim: "within_limit p" "list_all within_limit pre" by simp_all
  obtain g gs where rest: "pre @ f # post = g # gs" by (cases "pre @ f # post") simp_all
  have "rd \<lparr>state = START_FIELD, cur_fields = fl, cur_field = []\<rparr>
      (join_append False p @ delimiter # (join_fields (g # gs) @ CR # LF # cs)) =
    rd \<lparr>state = START_FIELD, cur_fields = fl @ [p], cur_field = []\<rparr>
      (join_fields (g # gs) @ CR # LF # cs)"
    by (rule rd_field_delimiter) (simp_all add: lim)
  with Cons.IH [OF lim(2), of "fl @ [p]"] rest show ?case by simp
qed

lemma rd_writerow_too_long:
  assumes f: "list_all plain f" and long: "field_limit < int (length f)"
    and pre: "list_all within_limit (p # pre)"
  shows "rd parse_reset (writer_writerow (p # pre @ f # post) @ cs) = Inl CsvError"
proof -
  from pre have lim: "within_limit p" "list_all within_limit pre" by simp_all
  obtain g gs where rest: "pre @ f # post = g # gs" by (cases "pre @ f # post") simp_all
  have "rd \<lparr>state = START_RECORD, cur_fields = [], cur_field = []\<rparr>
      (join_append False p @ delimiter # (join_fields (g # gs) @ CR # LF # cs)) =
    rd \<lparr>state = START_FIELD, cur_fields = [] @ [p], cur_field = []\<rparr>
      (join_fields (g # gs) @ CR # LF # cs)"
    by (rule rd_field_delimiter) (simp_all add: lim)
  with rd_join_fields_too_long [OF f long lim(2), of "[p]" post cs] rest show ?thesis
    by (simp add: writer_writerow_def lineterminator_def parse_reset_def)
qed

text \<open>The store whose only record is a sample with the oversized current location.\<close>

lemma oversized_plain: "list_all plain oversized" "field_limit < int (length oversized)"
  by (simp_all add: oversized_def list_all_iff plain_def delimiter_def quotechar_def CR_def LF_def
      field_limit_def)

lemma DictReader_oversized:
  assumes "within_limit v" "within_limit s" "list_all fits rs"
  shows "DictReader (store_file (rs @ sample v s oversized # rest)) = Inl CsvError"
proof -
  let ?tail = "concat (map (\<lambda>e. writer_writerow (entry_values e)) rest)"
  have row: "rd parse_reset (writer_writerow (entry_values (sample v s oversized)) @ ?tail) =
      Inl CsvError"
    using rd_writerow_too_long [OF oversized_plain,
        of "''2024-01-01T00:00:00''" "[''sam'', s, v]" "[[]]" ?tail] assms(1,2)
    by (simp add: entry_values_def sample_def within_limit_def field_limit_def)
  have step: "rd parse_reset (concat (map writer_writerow rows) @ c) = Inl CsvError"
    if "list_all (\<lambda>fs. fs \<noteq> [] \<and> list_all within_limit fs) rows"
      and "rd parse_reset c = Inl CsvError" for rows c
    using that by (induction rows) (simp_all add: rd_writerow emit_def)
  have rows: "list_all (\<lambda>fs. fs \<noteq> [] \<and> list_all within_limit fs)
      (FIELDNAMES # map entry_values rs)"
    using assms(3)
    by (induction rs) (simp_all add: entry_values_nonempty fits_def FIELDNAMES_within_limit,
        simp add: FIELDNAMES_def)
  have "store_file (rs @ sample v s oversized # rest) =
      concat (map writer_writerow (FIELDNAMES # map entry_values rs)) @
      (writer_writerow (entry_values (sample v s oversized)) @ ?tail)"
    by (simp add: store_file_def writeheader_def comp_def)
  then have "csv_reader (store_file (rs @ sample v s oversized # rest)) = Inl CsvError"
    using step [OF rows row] by (simp add: csv_reader_def rd_def)
  then show ?thesis by (simp add: DictReader_def)
qed












lemma init_csv_idem: "init_csv (init_csv f) = init_csv f"
  by (cases f) (simp_all add: init_csv_def exists_file_def)

lemma load_records_init: "load_records (init_csv f) = load_records f"
  by (simp add: load_records_def init_csv_idem)

lemma snd_load_records: "snd (load_records f) = init_csv f"
  by (simp add: load_records_def Let_def split: sum.splits)

lemma snd_build_excel: "snd (build_excel f) = init_csv f"
  using snd_load_records [of f]
  by (cases "load_records f") (simp add: build_excel_def split: sum.splits)

lemma snd_build_pdf: "snd (build_pdf f) = init_csv f"
  using snd_load_records [of f]
  by (cases "load_records f") (simp add: build_pdf_def split: sum.splits)

text \<open>The header stays once it is there.\<close>

lemma has_header_store: "has_header (Content (store_file rs))"
  by (simp add: has_header_def store_file_def)

lemma has_header_writeheader: "has_header (Content (writeheader @ c))"
  by (simp add: has_header_def)

lemma has_header_append: "has_header (Content c) \<Longrightarrow> has_header (Content (c @ t))"
proof -
  assume h: "has_header (Content c)"
  then have "length (take (length writeheader) c) = length writeheader"
    by (simp add: has_header_def)
  then have "length writeheader \<le> length c"
    by simp
  with h show ?thesis by (simp add: has_header_def)
qed

lemma has_header_Content: "has_header f \<Longrightarrow> \<exists>c. f = Content c"
  by (cases f) (simp_all add: has_header_def)

lemma writerows_prefix: "\<exists>t. snd (writerows ds out) = out @ t"
proof (induction ds arbitrary: out)
  case Nil
  show ?case by simp
next
  case (Cons d ds)
  show ?case
  proof (cases "dict_to_list d")
    case (Inl e)
    then show ?thesis by simp
  next
    case (Inr vals)
    from Cons [of "out @ writer_writerow vals"] obtain t where
      "snd (writerows ds (out @ writer_writerow vals)) = (out @ writer_writerow vals) @ t" by blast
    with Inr show ?thesis by simp
  qed
qed

lemma has_header_delete:
  assumes "has_header f"
  shows "has_header (snd (delete_records_by_vin v f))"
proof -
  from has_header_Content [OF assms] obtain c where c: "f = Content c" by blast
  show ?thesis
  proof (cases "DictReader c")
    case (Inl e)
    with c assms show ?thesis
      by (simp add: delete_records_by_vin_def init_csv_simps exists_file_def open_read_def)
  next
    case (Inr rows)
    obtain removed remaining where loop: "delete_loop v rows 0 [] = (removed, remaining)"
      by (cases "delete_loop v rows 0 []")
    obtain err out where w: "writerows remaining writeheader = (err, out)"
      by (cases "writerows remaining writeheader")
    from writerows_prefix [of remaining writeheader] w obtain t where "out = writeheader @ t"
      by auto
    with c Inr loop w show ?thesis
      by (cases err)
        (simp_all add: delete_records_by_vin_def init_csv_simps exists_file_def open_read_def
          has_header_writeheader)
  qed
qed

lemma has_header_apply_op: "has_header f \<Longrightarrow> has_header (apply_op f op)"
proof (cases op)
  case Ensure_initialized
  assume "has_header f"
  with Ensure_initialized has_header_Content [of f] show ?thesis
    by (auto simp: init_csv_simps)
next
  case (Append e)
  assume h: "has_header f"
  from has_header_Content [OF h] obtain c where c: "f = Content c" by blast
  with h Append show ?thesis
    by (simp add: append_record_def open_append_def write_text_def dict_to_list_to_row
        has_header_append)
next
  case (Delete_by_vin v)
  assume "has_header f"
  with Delete_by_vin show ?thesis by (simp add: has_header_delete)
qed

lemma has_header_run_ops: "has_header f \<Longrightarrow> has_header (run_ops ops f)"
proof (induction ops arbitrary: f)
  case Nil
  then show ?case by (simp add: run_ops_def)
next
  case (Cons op ops)
  from Cons.IH [OF has_header_apply_op [OF Cons.prems, of op]] show ?case
    by (simp add: run_ops_def)
qed

text \<open>\<^verbatim>\<open>submit\<close> on a store.\<close>

lemma strip_Nil: "strip [] = []"
  by (simp add: strip_def)

lemma submit_store:
  assumes "strip handled_by \<noteq> []" "strip vin \<noteq> []" "strip stock_id \<noteq> []"
    "strip current_location \<noteq> []" and fit: "list_all fits rs"
  shows "submit now handled_by vin stock_id current_location (Content (store_file rs)) =
    (Inr (RedirectResponse ''/update?success=Saved%20update.'' 303),
     Content (store_file (rs @
       [\<lparr>e_timestamp = now, e_handled_by = strip handled_by, e_stock_id = strip stock_id,
         e_vin = strip vin, e_current_location = strip current_location,
         e_previous_location =
           (case last_match (\<lambda>e. (e_vin e = strip vin \<or> e_stock_id e = strip stock_id) \<and>
                    e_current_location e \<noteq> []) rs of
              None \<Rightarrow> [] | Some e \<Rightarrow> e_current_location e)\<rparr>])))"
proof -
  from assms(1-4) have ne: "handled_by \<noteq> []" "vin \<noteq> []" "stock_id \<noteq> []" "current_location \<noteq> []"
    using strip_Nil by auto
  show ?thesis
    using assms(1-4) ne
    by (simp add: submit_def Let_def find_previous_location_store [OF fit] open_append_def
        write_text_def dict_to_list_def FIELDNAMES_def row_get_def store_file_append
        entry_values_def split: option.splits)
qed

lemma submit_blank:
  assumes "handled_by \<noteq> []" "vin \<noteq> []" "stock_id \<noteq> []" "current_location \<noteq> []"
    and "strip handled_by = [] \<or> strip vin = [] \<or> strip stock_id = [] \<or>
      strip current_location = []"
  shows "submit now handled_by vin stock_id current_location f =
    (Inr (RedirectResponse ''/update?error=All%20fields%20are%20required.'' 303), f)"
  using assms by (auto simp: submit_def Let_def)

lemma submit_empty:
  assumes "handled_by = [] \<or> vin = [] \<or> stock_id = [] \<or> current_location = []"
  shows "submit now handled_by vin stock_id current_location f =
    (Inr (ValidationErrorResponse 422), f)"
  using assms by (auto simp: submit_def)

section \<open>The claims\<close>

text \<open>
  C1, as amended. Records whose fields are within the reader's limit, appended in order to
  a fresh store (the file \<^verbatim>\<open>_init_csv\<close> creates) or to a store that already holds such
  records \<open>rs0\<close>, are what \<^verbatim>\<open>_load_records\<close> returns afterwards: as many rows, in the
  order of insertion, each with the six values that were appended, whatever characters
  the values hold.
\<close>

theorem append_then_load_round_trip:
  assumes "list_all fits rs0" and "list_all fits rs"
  shows "fst (append_all rs (init_csv Absent)) = Inr () \<and>
   fst (load_records (snd (append_all rs (init_csv Absent)))) = Inr (map to_row rs) \<and>
   fst (load_records (snd (append_all rs (Content (store_file rs0))))) =
     Inr (map to_row rs0 @ map to_row rs)"
proof -
  have fresh: "append_all rs (init_csv Absent) = (Inr (), Content (store_file rs))"
    using append_all_store [of rs "[]"] by (simp add: init_csv_simps)
  have more: "append_all rs (Content (store_file rs0)) = (Inr (), Content (store_file (rs0 @ rs)))"
    by (rule append_all_store)
  have both: "list_all fits (rs0 @ rs)"
    using assms by simp
  show ?thesis
    unfolding fresh more
    using load_records_store [OF assms(2)] load_records_store [OF both] by simp
qed

theorem append_then_load_round_trip_witness:
  "list_all fits [sample ''A'' ''S1'' ''Lot 1, row 2'', sample ''B'' ''S2'' [CHR ''x'', LF, quotechar]] \<and>
   fst (load_records (snd (append_all
      [sample ''A'' ''S1'' ''Lot 1, row 2'', sample ''B'' ''S2'' [CHR ''x'', LF, quotechar]]
      (init_csv Absent)))) =
   Inr [to_row (sample ''A'' ''S1'' ''Lot 1, row 2''),
        to_row (sample ''B'' ''S2'' [CHR ''x'', LF, quotechar])]"
proof -
  have fit: "list_all fits
      [sample ''A'' ''S1'' ''Lot 1, row 2'', sample ''B'' ''S2'' [CHR ''x'', LF, quotechar]]"
    by (simp add: fits_sample within_limit_def field_limit_def)
  have none: "list_all fits []" by simp
  from append_then_load_round_trip [OF none fit] fit show ?thesis by simp
qed

text \<open>
  C1 as the specification states it fails for a record with a field of 131073
  characters: the append succeeds and the load that follows raises \<^verbatim>\<open>csv.Error\<close>. It
  also fails on the file the append creates when none exists, where the load returns no
  record.
\<close>

theorem append_then_load_oversized_field:
  "fst (append_all [sample ''A'' ''S1'' oversized] (init_csv Absent)) = Inr () \<and>
   fst (load_records (snd (append_all [sample ''A'' ''S1'' oversized] (init_csv Absent)))) =
     Inl CsvError \<and>
   fst (append_all [sample ''A'' ''S1'' ''L1''] Absent) = Inr () \<and>
   fst (load_records (snd (append_all [sample ''A'' ''S1'' ''L1''] Absent))) = Inr []"
proof (intro conjI)
  have fresh: "append_all [sample ''A'' ''S1'' oversized] (init_csv Absent) =
      (Inr (), Content (store_file [sample ''A'' ''S1'' oversized]))"
    using append_all_store [of "[sample ''A'' ''S1'' oversized]" "[]"]
    by (simp add: init_csv_simps)
  have bad: "DictReader (store_file [sample ''A'' ''S1'' oversized]) = Inl CsvError"
    using DictReader_oversized [of "''A''" "''S1''" "[]" "[]"]
    by (simp add: within_limit_def field_limit_def)
  show "fst (append_all [sample ''A'' ''S1'' oversized] (init_csv Absent)) = Inr ()"
    unfolding fresh by simp
  show "fst (load_records (snd (append_all [sample ''A'' ''S1'' oversized] (init_csv Absent)))) =
      Inl CsvError"
    unfolding fresh by (simp add: load_records_def init_csv_simps open_read_def bad)
  show "fst (append_all [sample ''A'' ''S1'' ''L1''] Absent) = Inr ()"
    by code_simp
  show "fst (load_records (snd (append_all [sample ''A'' ''S1'' ''L1''] Absent))) = Inr []"
    by code_simp
qed

text \<open>
  C2, as amended. On a store holding records \<open>rs\<close> whose fields are within the reader's
  limit, \<^verbatim>\<open>_delete_records_by_vin\<close> returns the number of records whose vin is the
  target and leaves the file holding the other records in their order; loading it
  returns exactly those. On an absent file it returns 0 and leaves the empty store.
\<close>

theorem delete_by_vin_count_and_rest:
  assumes "list_all fits rs"
  shows "delete_records_by_vin v (Content (store_file rs)) =
     (Inr (int (length (filter (\<lambda>e. e_vin e = v) rs))),
      Content (store_file (filter (\<lambda>e. e_vin e \<noteq> v) rs))) \<and>
   fst (load_records (snd (delete_records_by_vin v (Content (store_file rs))))) =
     Inr (map to_row (filter (\<lambda>e. e_vin e \<noteq> v) rs)) \<and>
   delete_records_by_vin v Absent = (Inr 0, Content (store_file []))"
proof -
  have del: "delete_records_by_vin v (Content (store_file rs)) =
     (Inr (int (length (filter (\<lambda>e. e_vin e = v) rs))),
      Content (store_file (filter (\<lambda>e. e_vin e \<noteq> v) rs)))"
    by (rule delete_records_store [OF assms])
  have rest: "list_all fits (filter (\<lambda>e. e_vin e \<noteq> v) rs)"
    by (rule filter_fits [OF assms])
  show ?thesis
    unfolding del using load_records_store [OF rest] by (simp add: delete_records_Absent)
qed

theorem delete_by_vin_count_and_rest_witness:
  "list_all fits [sample ''X'' ''S1'' ''L1'', sample ''A'' ''S2'' ''L2'',
        sample ''X'' ''S1'' ''L3'', sample ''B'' ''S3'' ''L4'', sample ''X'' ''S1'' ''L5''] \<and>
   delete_records_by_vin ''X''
     (Content (store_file [sample ''X'' ''S1'' ''L1'', sample ''A'' ''S2'' ''L2'',
        sample ''X'' ''S1'' ''L3'', sample ''B'' ''S3'' ''L4'', sample ''X'' ''S1'' ''L5''])) =
   (Inr 3, Content (store_file [sample ''A'' ''S2'' ''L2'', sample ''B'' ''S3'' ''L4'']))"
proof -
  have fit: "list_all fits [sample ''X'' ''S1'' ''L1'', sample ''A'' ''S2'' ''L2'',
      sample ''X'' ''S1'' ''L3'', sample ''B'' ''S3'' ''L4'', sample ''X'' ''S1'' ''L5'']"
    by (simp add: fits_sample within_limit_def field_limit_def)
  from delete_by_vin_count_and_rest [OF fit, of "''X''"] fit show ?thesis
    by (simp add: sample_def)
qed

text \<open>
  C2 as the specification states it fails on a store that holds a field of 131073
  characters, where the deletion raises \<^verbatim>\<open>csv.Error\<close> and leaves the file as it is, and
  on the file without header that two appends leave where none existed, where it raises
  \<^verbatim>\<open>ValueError\<close> and leaves the header alone.
\<close>

theorem delete_by_vin_oversized_field:
  "delete_records_by_vin ''X'' (Content (store_file [sample ''X'' ''S1'' oversized])) =
     (Inl CsvError, Content (store_file [sample ''X'' ''S1'' oversized])) \<and>
   delete_records_by_vin ''V1''
     (snd (append_all [sample ''V1'' ''S1'' ''Lot A'', sample ''V1'' ''S1'' ''Lot B''] Absent)) =
     (Inl ValueError, Content writeheader)"
proof (intro conjI)
  have bad: "DictReader (store_file [sample ''X'' ''S1'' oversized]) = Inl CsvError"
    using DictReader_oversized [of "''X''" "''S1''" "[]" "[]"]
    by (simp add: within_limit_def field_limit_def)
  show "delete_records_by_vin ''X'' (Content (store_file [sample ''X'' ''S1'' oversized])) =
      (Inl CsvError, Content (store_file [sample ''X'' ''S1'' oversized]))"
    by (simp add: delete_records_by_vin_def init_csv_simps exists_file_def open_read_def bad)
  show "delete_records_by_vin ''V1''
      (snd (append_all [sample ''V1'' ''S1'' ''Lot A'', sample ''V1'' ''S1'' ''Lot B''] Absent)) =
      (Inl ValueError, Content writeheader)"
    by code_simp
qed

text \<open>
  C3, as amended. On a store holding records \<open>rs\<close> whose fields are within the reader's
  limit, \<^verbatim>\<open>_find_previous_location\<close> returns the current location of the last record
  in insertion order, among those whose vin is the given vin or whose stock id is the
  given stock id, that has a non-empty current location, and \<^verbatim>\<open>None\<close> when there is no
  such record; on an absent file it returns \<^verbatim>\<open>None\<close>. Where every stored current
  location is non-empty, as the data model has it and as \<^verbatim>\<open>submit\<close> writes it, this is
  the last matching record: what \<open>claimed_previous_location\<close> states.
\<close>

theorem find_previous_location_last_nonempty_match:
  assumes "list_all fits rs"
  shows "find_previous_location v s (Content (store_file rs)) =
     Inr (map_option e_current_location
       (last_match (\<lambda>e. (e_vin e = v \<or> e_stock_id e = s) \<and> e_current_location e \<noteq> []) rs)) \<and>
   find_previous_location v s Absent = Inr None \<and>
   (list_all (\<lambda>e. e_current_location e \<noteq> []) rs \<longrightarrow>
      find_previous_location v s (Content (store_file rs)) =
        Inr (claimed_previous_location v s rs))"
proof -
  have absent: "find_previous_location v s Absent = Inr None"
    by (simp add: find_previous_location_def exists_file_def)
  have same: "filter (\<lambda>e. (e_vin e = v \<or> e_stock_id e = s) \<and> e_current_location e \<noteq> []) rs =
      filter (\<lambda>e. e_vin e = v \<or> e_stock_id e = s) rs"
    if "list_all (\<lambda>e. e_current_location e \<noteq> []) rs"
    using that by (induction rs) auto
  show ?thesis
    using absent same find_previous_location_store [OF assms, of v s]
    by (simp add: claimed_previous_location_def last_match_def)
qed

theorem find_previous_location_last_nonempty_match_witness:
  "list_all fits [sample ''A'' ''S1'' ''L1'', sample ''B'' ''S1'' ''L2''] \<and>
   list_all (\<lambda>e. e_current_location e \<noteq> [])
     [sample ''A'' ''S1'' ''L1'', sample ''B'' ''S1'' ''L2''] \<and>
   find_previous_location ''C'' ''S1''
     (Content (store_file [sample ''A'' ''S1'' ''L1'', sample ''B'' ''S1'' ''L2''])) =
   Inr (Some ''L2'') \<and>
   list_all fits [sample ''A'' ''S1'' ''L1'', sample ''A'' ''S1'' ''L2''] \<and>
   find_previous_location ''A'' ''S0''
     (Content (store_file [sample ''A'' ''S1'' ''L1'', sample ''A'' ''S1'' ''L2''])) =
   Inr (Some ''L2'')"
proof -
  have fit1: "list_all fits [sample ''A'' ''S1'' ''L1'', sample ''B'' ''S1'' ''L2'']"
    by (simp add: fits_sample within_limit_def field_limit_def)
  have fit2: "list_all fits [sample ''A'' ''S1'' ''L1'', sample ''A'' ''S1'' ''L2'']"
    by (simp add: fits_sample within_limit_def field_limit_def)
  from find_previous_location_last_nonempty_match [OF fit1, of "''C''" "''S1''"]
    find_previous_location_last_nonempty_match [OF fit2, of "''A''" "''S0''"] fit1 fit2
  show ?thesis
    by (simp add: sample_def last_match_def)
qed

text \<open>
  C3 as the specification states it fails on a store that holds a field of 131073
  characters, where the lookup raises \<^verbatim>\<open>csv.Error\<close>, and on the file without header
  that two appends leave where none existed, where it returns \<^verbatim>\<open>None\<close> for the vin and
  the stock id that were appended.
\<close>

theorem find_previous_location_oversized_field:
  "find_previous_location ''A'' ''S1'' (Content (store_file [sample ''A'' ''S1'' oversized])) =
     Inl CsvError \<and>
   claimed_previous_location ''A'' ''S1'' [sample ''A'' ''S1'' oversized] = Some oversized \<and>
   find_previous_location ''V1'' ''S1''
     (snd (append_all [sample ''V1'' ''S1'' ''Lot A'', sample ''V1'' ''S1'' ''Lot B''] Absent)) =
     Inr None \<and>
   claimed_previous_location ''V1'' ''S1''
     [sample ''V1'' ''S1'' ''Lot A'', sample ''V1'' ''S1'' ''Lot B''] = Some ''Lot B''"
proof (intro conjI)
  have bad: "DictReader (store_file [sample ''A'' ''S1'' oversized]) = Inl CsvError"
    using DictReader_oversized [of "''A''" "''S1''" "[]" "[]"]
    by (simp add: within_limit_def field_limit_def)
  show "find_previous_location ''A'' ''S1''
      (Content (store_file [sample ''A'' ''S1'' oversized])) = Inl CsvError"
    by (simp add: find_previous_location_def exists_file_def open_read_def bad)
  show "claimed_previous_location ''A'' ''S1'' [sample ''A'' ''S1'' oversized] = Some oversized"
    by (simp add: claimed_previous_location_def last_match_def sample_def)
  show "find_previous_location ''V1'' ''S1''
      (snd (append_all [sample ''V1'' ''S1'' ''Lot A'', sample ''V1'' ''S1'' ''Lot B''] Absent)) =
      Inr None"
    by code_simp
  show "claimed_previous_location ''V1'' ''S1''
      [sample ''V1'' ''S1'' ''Lot A'', sample ''V1'' ''S1'' ''Lot B''] = Some ''Lot B''"
    by (simp add: claimed_previous_location_def last_match_def sample_def)
qed

text \<open>
  C4, as amended. A submission in which one of the four fields is empty is answered with
  status 422 by the framework, and one in which all are non-empty and one is blank after
  trimming with the error redirect; in both the file is left as it is, whatever its
  state. When no field is blank after trimming, then on a store holding records \<open>rs\<close>
  whose fields are within the reader's limit \<^verbatim>\<open>submit\<close> appends one record and answers
  with the success redirect: the record carries the reading of the clock, the four
  trimmed fields and the previous location that the lookup gives on \<open>rs\<close>.
\<close>

theorem submit_validates_then_appends:
  "(handled_by = [] \<or> vin = [] \<or> stock_id = [] \<or> current_location = [] \<longrightarrow>
      submit now handled_by vin stock_id current_location f =
        (Inr (ValidationErrorResponse 422), f)) \<and>
   (handled_by \<noteq> [] \<and> vin \<noteq> [] \<and> stock_id \<noteq> [] \<and> current_location \<noteq> [] \<and>
    (strip handled_by = [] \<or> strip vin = [] \<or> strip stock_id = [] \<or>
     strip current_location = []) \<longrightarrow>
      submit now handled_by vin stock_id current_location f =
        (Inr (RedirectResponse ''/update?error=All%20fields%20are%20required.'' 303), f)) \<and>
   (strip handled_by \<noteq> [] \<and> strip vin \<noteq> [] \<and> strip stock_id \<noteq> [] \<and>
    strip current_location \<noteq> [] \<and> list_all fits rs \<longrightarrow>
      submit now handled_by vin stock_id current_location (Content (store_file rs)) =
        (Inr (RedirectResponse ''/update?success=Saved%20update.'' 303),
         Content (store_file (rs @
           [\<lparr>e_timestamp = now, e_handled_by = strip handled_by, e_stock_id = strip stock_id,
             e_vin = strip vin, e_current_location = strip current_location,
             e_previous_location =
               (case last_match (\<lambda>e. (e_vin e = strip vin \<or> e_stock_id e = strip stock_id) \<and>
                        e_current_location e \<noteq> []) rs of
                  None \<Rightarrow> [] | Some e \<Rightarrow> e_current_location e)\<rparr>]))))"
proof (intro conjI impI)
  assume "handled_by = [] \<or> vin = [] \<or> stock_id = [] \<or> current_location = []"
  then show "submit now handled_by vin stock_id current_location f =
      (Inr (ValidationErrorResponse 422), f)"
    by (rule submit_empty)
next
  assume "handled_by \<noteq> [] \<and> vin \<noteq> [] \<and> stock_id \<noteq> [] \<and> current_location \<noteq> [] \<and>
    (strip handled_by = [] \<or> strip vin = [] \<or> strip stock_id = [] \<or>
     strip current_location = [])"
  then show "submit now handled_by vin stock_id current_location f =
      (Inr (RedirectResponse ''/update?error=All%20fields%20are%20required.'' 303), f)"
    by (intro submit_blank) simp_all
next
  assume "strip handled_by \<noteq> [] \<and> strip vin \<noteq> [] \<and> strip stock_id \<noteq> [] \<and>
    strip current_location \<noteq> [] \<and> list_all fits rs"
  then show "submit now handled_by vin stock_id current_location (Content (store_file rs)) =
      (Inr (RedirectResponse ''/update?success=Saved%20update.'' 303),
       Content (store_file (rs @
         [\<lparr>e_timestamp = now, e_handled_by = strip handled_by, e_stock_id = strip stock_id,
           e_vin = strip vin, e_current_location = strip current_location,
           e_previous_location =
             (case last_match (\<lambda>e. (e_vin e = strip vin \<or> e_stock_id e = strip stock_id) \<and>
                      e_current_location e \<noteq> []) rs of
                None \<Rightarrow> [] | Some e \<Rightarrow> e_current_location e)\<rparr>])))"
    by (intro submit_store) simp_all
qed

theorem submit_validates_then_appends_witness:
  "submit ''2024-01-02T10:00:00'' ''sam'' [] ''S1'' ''Lot B''
     (Content (store_file [sample ''A'' ''S1'' ''Lot A''])) =
     (Inr (ValidationErrorResponse 422), Content (store_file [sample ''A'' ''S1'' ''Lot A''])) \<and>
   strip ''   '' = [] \<and>
   submit ''2024-01-02T10:00:00'' ''sam'' ''   '' ''S1'' ''Lot B''
     (Content (store_file [sample ''A'' ''S1'' ''Lot A''])) =
     (Inr (RedirectResponse ''/update?error=All%20fields%20are%20required.'' 303),
      Content (store_file [sample ''A'' ''S1'' ''Lot A''])) \<and>
   strip '' sam '' = ''sam'' \<and> strip ''A '' = ''A'' \<and> strip ''S1'' = ''S1'' \<and>
   strip ''Lot B'' = ''Lot B'' \<and> list_all fits [sample ''A'' ''S1'' ''Lot A''] \<and>
   submit ''2024-01-02T10:00:00'' '' sam '' ''A '' ''S1'' ''Lot B''
     (Content (store_file [sample ''A'' ''S1'' ''Lot A''])) =
     (Inr (RedirectResponse ''/update?success=Saved%20update.'' 303),
      Content (store_file [sample ''A'' ''S1'' ''Lot A'',
        \<lparr>e_timestamp = ''2024-01-02T10:00:00'', e_handled_by = ''sam'', e_stock_id = ''S1'',
          e_vin = ''A'', e_current_location = ''Lot B'', e_previous_location = ''Lot A''\<rparr>]))"
proof -
  have blank: "strip ''   '' = []" by code_simp
  have s1: "strip '' sam '' = ''sam''" by code_simp
  have s2: "strip ''A '' = ''A''" by code_simp
  have s3: "strip ''S1'' = ''S1''" by code_simp
  have s4: "strip ''Lot B'' = ''Lot B''" by code_simp
  have fit: "list_all fits [sample ''A'' ''S1'' ''Lot A'']"
    by (simp add: fits_sample within_limit_def field_limit_def)
  note thm0 = submit_validates_then_appends
    [of "''sam''" "[]" "''S1''" "''Lot B''" "''2024-01-02T10:00:00''"
      "Content (store_file [sample ''A'' ''S1'' ''Lot A''])" "[]"]
  note thm1 = submit_validates_then_appends
    [of "''sam''" "''   ''" "''S1''" "''Lot B''" "''2024-01-02T10:00:00''"
      "Content (store_file [sample ''A'' ''S1'' ''Lot A''])" "[]"]
  note thm2 = submit_validates_then_appends
    [of "'' sam ''" "''A ''" "''S1''" "''Lot B''" "''2024-01-02T10:00:00''"
      Absent "[sample ''A'' ''S1'' ''Lot A'']"]
  from thm0 have r0: "submit ''2024-01-02T10:00:00'' ''sam'' [] ''S1'' ''Lot B''
     (Content (store_file [sample ''A'' ''S1'' ''Lot A''])) =
     (Inr (ValidationErrorResponse 422), Content (store_file [sample ''A'' ''S1'' ''Lot A'']))"
    by simp
  from thm1 blank have r1: "submit ''2024-01-02T10:00:00'' ''sam'' ''   '' ''S1'' ''Lot B''
     (Content (store_file [sample ''A'' ''S1'' ''Lot A''])) =
     (Inr (RedirectResponse ''/update?error=All%20fields%20are%20required.'' 303),
      Content (store_file [sample ''A'' ''S1'' ''Lot A'']))"
    by simp
  from thm2 s1 s2 s3 s4 fit have r2: "submit ''2024-01-02T10:00:00'' '' sam '' ''A '' ''S1'' ''Lot B''
     (Content (store_file [sample ''A'' ''S1'' ''Lot A''])) =
     (Inr (RedirectResponse ''/update?success=Saved%20update.'' 303),
      Content (store_file [sample ''A'' ''S1'' ''Lot A'',
        \<lparr>e_timestamp = ''2024-01-02T10:00:00'', e_handled_by = ''sam'', e_stock_id = ''S1'',
          e_vin = ''A'', e_current_location = ''Lot B'', e_previous_location = ''Lot A''\<rparr>]))"
    by (simp add: last_match_def sample_def)
  from blank s1 s2 s3 s4 fit r0 r1 r2 show ?thesis by blast
qed

text \<open>
  C4 as the specification states it fails for an empty field, which is blank after
  trimming and is answered with status 422, not with the error redirect; and for four
  non-blank fields on a store that holds a field of 131073 characters, where the lookup
  raises \<^verbatim>\<open>csv.Error\<close> and nothing is appended.
\<close>

theorem submit_empty_field_is_422:
  "strip [] = [] \<and>
   submit ''2024-01-02T10:00:00'' ''sam'' [] ''S1'' ''Lot B'' (Content (store_file [])) =
     (Inr (ValidationErrorResponse 422), Content (store_file [])) \<and>
   strip ''sam'' = ''sam'' \<and> strip ''A'' = ''A'' \<and> strip ''S1'' = ''S1'' \<and>
   strip ''Lot B'' = ''Lot B'' \<and>
   submit ''2024-01-02T10:00:00'' ''sam'' ''A'' ''S1'' ''Lot B''
     (Content (store_file [sample ''A'' ''S1'' oversized])) =
     (Inl CsvError, Content (store_file [sample ''A'' ''S1'' oversized]))"
proof (intro conjI)
  have bad: "DictReader (store_file [sample ''A'' ''S1'' oversized]) = Inl CsvError"
    using DictReader_oversized [of "''A''" "''S1''" "[]" "[]"]
    by (simp add: within_limit_def field_limit_def)
  show "strip [] = []" by (rule strip_Nil)
  show "submit ''2024-01-02T10:00:00'' ''sam'' [] ''S1'' ''Lot B'' (Content (store_file [])) =
      (Inr (ValidationErrorResponse 422), Content (store_file []))"
    by (simp add: submit_def)
  show s1: "strip ''sam'' = ''sam''" by code_simp
  show s2: "strip ''A'' = ''A''" by code_simp
  show s3: "strip ''S1'' = ''S1''" by code_simp
  show s4: "strip ''Lot B'' = ''Lot B''" by code_simp
  show "submit ''2024-01-02T10:00:00'' ''sam'' ''A'' ''S1'' ''Lot B''
      (Content (store_file [sample ''A'' ''S1'' oversized])) =
      (Inl CsvError, Content (store_file [sample ''A'' ''S1'' oversized]))"
    using s1 s2 s3 s4
    by (simp add: submit_def Let_def find_previous_location_def exists_file_def open_read_def bad)
qed

text \<open>
  C5, as amended. On a store holding records \<open>rs\<close> whose fields are within the reader's
  limit, \<^verbatim>\<open>_find_latest_record_by_vin\<close> returns the last record in insertion order whose
  vin is the given one, and \<^verbatim>\<open>None\<close> when there is none, and it leaves the file as it
  is. On a fresh store, absent or just initialised, it and \<^verbatim>\<open>_find_previous_location\<close>
  return \<^verbatim>\<open>None\<close>.
\<close>

theorem find_latest_by_vin_last_match:
  assumes "list_all fits rs"
  shows "find_latest_record_by_vin v (Content (store_file rs)) =
     (Inr (map_option to_row (last_match (\<lambda>e. e_vin e = v) rs)), Content (store_file rs)) \<and>
   fst (find_latest_record_by_vin v Absent) = Inr None \<and>
   fst (find_latest_record_by_vin v (init_csv Absent)) = Inr None \<and>
   find_previous_location v s Absent = Inr None \<and>
   find_previous_location v s (init_csv Absent) = Inr None"
proof -
  have empty: "last_match P ([] :: entry list) = None" for P
    by (rule last_match_Nil)
  have none: "list_all fits []" by simp
  have absent: "find_latest_record_by_vin v Absent = (Inr None, Content (store_file []))"
    by (simp add: find_latest_record_by_vin_def load_records_Absent)
  have prev: "find_previous_location v s Absent = Inr None"
    by (simp add: find_previous_location_def exists_file_def)
  show ?thesis
    unfolding absent prev
    using find_latest_store [OF assms, of v] find_latest_store [OF none, of v]
      find_previous_location_store [OF none, of v s]
    by (simp add: init_csv_simps empty)
qed

theorem find_latest_by_vin_last_match_witness:
  "list_all fits [sample ''A'' ''S1'' ''L1'', sample ''A'' ''S1'' ''L2'', sample ''B'' ''S2'' ''L3''] \<and>
   fst (find_latest_record_by_vin ''A''
     (Content (store_file [sample ''A'' ''S1'' ''L1'', sample ''A'' ''S1'' ''L2'',
        sample ''B'' ''S2'' ''L3'']))) =
   Inr (Some (to_row (sample ''A'' ''S1'' ''L2'')))"
proof -
  have fit: "list_all fits
      [sample ''A'' ''S1'' ''L1'', sample ''A'' ''S1'' ''L2'', sample ''B'' ''S2'' ''L3'']"
    by (simp add: fits_sample within_limit_def field_limit_def)
  from find_latest_by_vin_last_match [OF fit, of "''A''"] fit show ?thesis
    by (simp add: sample_def last_match_def)
qed

text \<open>
  C5 as the specification states it fails on a store that holds a field of 131073
  characters, where the lookup raises \<^verbatim>\<open>csv.Error\<close>, and on the file without header
  that two appends leave where none existed, where it returns \<^verbatim>\<open>None\<close> for the vin that
  was appended.
\<close>

theorem find_latest_by_vin_oversized_field:
  "find_latest_record_by_vin ''A'' (Content (store_file [sample ''A'' ''S1'' oversized])) =
     (Inl CsvError, Content (store_file [sample ''A'' ''S1'' oversized])) \<and>
   fst (find_latest_record_by_vin ''V1''
     (snd (append_all [sample ''V1'' ''S1'' ''Lot A'', sample ''V1'' ''S1'' ''Lot B''] Absent))) =
     Inr None"
proof (intro conjI)
  have bad: "DictReader (store_file [sample ''A'' ''S1'' oversized]) = Inl CsvError"
    using DictReader_oversized [of "''A''" "''S1''" "[]" "[]"]
    by (simp add: within_limit_def field_limit_def)
  show "find_latest_record_by_vin ''A'' (Content (store_file [sample ''A'' ''S1'' oversized])) =
      (Inl CsvError, Content (store_file [sample ''A'' ''S1'' oversized]))"
    by (simp add: find_latest_record_by_vin_def load_records_def init_csv_simps open_read_def bad)
  show "fst (find_latest_record_by_vin ''V1''
      (snd (append_all [sample ''V1'' ''S1'' ''Lot A'', sample ''V1'' ''S1'' ''Lot B''] Absent))) =
      Inr None"
    by code_simp
qed

text \<open>
  C6. \<^verbatim>\<open>_build_excel\<close> and \<^verbatim>\<open>_build_pdf\<close> leave the file as \<^verbatim>\<open>_init_csv\<close> leaves it:
  an existing file keeps its content, an absent one becomes the empty store. What
  \<^verbatim>\<open>_load_records\<close> returns is the same after the export as before it, whether the
  export succeeds or raises.
\<close>

theorem exports_leave_store:
  "snd (build_excel (Content c)) = Content c \<and>
   snd (build_pdf (Content c)) = Content c \<and>
   snd (build_excel f) = init_csv f \<and>
   snd (build_pdf f) = init_csv f \<and>
   fst (load_records (snd (build_excel f))) = fst (load_records f) \<and>
   fst (load_records (snd (build_pdf f))) = fst (load_records f)"
proof -
  have "snd (build_excel (Content c)) = Content c" "snd (build_pdf (Content c)) = Content c"
    by (simp_all add: snd_build_excel snd_build_pdf init_csv_simps)
  moreover have "fst (load_records (snd (build_excel f))) = fst (load_records f)"
    by (simp add: snd_build_excel load_records_init)
  moreover have "fst (load_records (snd (build_pdf f))) = fst (load_records f)"
    by (simp add: snd_build_pdf load_records_init)
  ultimately show ?thesis
    by (simp add: snd_build_excel snd_build_pdf)
qed

theorem exports_leave_store_witness:
  "snd (build_excel (Content (store_file [sample ''A'' ''S1'' ''L1'']))) =
     Content (store_file [sample ''A'' ''S1'' ''L1'']) \<and>
   fst (load_records (snd (build_pdf (Content (store_file [sample ''A'' ''S1'' ''L1''])))))
     = Inr [to_row (sample ''A'' ''S1'' ''L1'')]"
  using exports_leave_store
    [of "store_file [sample ''A'' ''S1'' ''L1'']" "Content (store_file [sample ''A'' ''S1'' ''L1''])"]
  by (simp add: load_records_store fits_sample within_limit_def field_limit_def)

text \<open>
  C7, at the input where the code departs from it. The append of \<^verbatim>\<open>submit\<close> opens the
  file in mode \<^verbatim>\<open>"a"\<close> without calling \<^verbatim>\<open>_init_csv\<close>: on an absent file it creates
  the file with the data row as its first line and no header. \<^verbatim>\<open>_load_records\<close> then
  takes that row for the field names and returns no record, and
  \<^verbatim>\<open>_delete_records_by_vin\<close> on the file after a second append raises
  \<^verbatim>\<open>ValueError\<close> and leaves the header alone in the file.
\<close>

theorem append_on_absent_file_writes_no_header:
  "run_ops [Append (sample ''V1'' ''S1'' ''Lot A'')] Absent =
     Content (''2024-01-01T00:00:00,sam,S1,V1,Lot A,'' @ [CR, LF]) \<and>
   has_header (run_ops [Append (sample ''V1'' ''S1'' ''Lot A'')] Absent) = False \<and>
   snd (submit ''2024-01-01T00:00:00'' ''sam'' ''V1'' ''S1'' ''Lot A'' Absent) =
     Content (''2024-01-01T00:00:00,sam,S1,V1,Lot A,'' @ [CR, LF]) \<and>
   fst (load_records (run_ops [Append (sample ''V1'' ''S1'' ''Lot A'')] Absent)) = Inr [] \<and>
   delete_records_by_vin ''V9''
     (run_ops [Append (sample ''V1'' ''S1'' ''Lot A''), Append (sample ''V2'' ''S2'' ''Lot B'')]
        Absent) =
     (Inl ValueError, Content writeheader)"
proof (intro conjI)
  show "run_ops [Append (sample ''V1'' ''S1'' ''Lot A'')] Absent =
      Content (''2024-01-01T00:00:00,sam,S1,V1,Lot A,'' @ [CR, LF])"
    by code_simp
  show "has_header (run_ops [Append (sample ''V1'' ''S1'' ''Lot A'')] Absent) = False"
    by code_simp
  show "snd (submit ''2024-01-01T00:00:00'' ''sam'' ''V1'' ''S1'' ''Lot A'' Absent) =
      Content (''2024-01-01T00:00:00,sam,S1,V1,Lot A,'' @ [CR, LF])"
    by code_simp
  show "fst (load_records (run_ops [Append (sample ''V1'' ''S1'' ''Lot A'')] Absent)) = Inr []"
    by code_simp
  show "delete_records_by_vin ''V9''
      (run_ops [Append (sample ''V1'' ''S1'' ''Lot A''), Append (sample ''V2'' ''S2'' ''Lot B'')]
        Absent) =
      (Inl ValueError, Content writeheader)"
    by code_simp
qed

text \<open>
  The header invariant where it does hold: once a file has the header, every sequence of
  initialisations, appends and deletions leaves a file that has it; so it is from an
  absent file once \<^verbatim>\<open>_init_csv\<close> has run.
\<close>

theorem header_kept_once_initialised:
  "(has_header f \<longrightarrow> has_header (run_ops ops f)) \<and>
   has_header (run_ops ops (Content (store_file rs))) \<and>
   has_header (run_ops (Ensure_initialized # ops) Absent)"
proof -
  have "run_ops (Ensure_initialized # ops) Absent = run_ops ops (Content (store_file []))"
    by (simp add: run_ops_def init_csv_simps)
  then show ?thesis
    using has_header_run_ops [of f ops] has_header_run_ops [OF has_header_store, of ops]
    by simp
qed

theorem header_kept_once_initialised_witness:
  "has_header (run_ops [Ensure_initialized, Append (sample ''V1'' ''S1'' ''Lot A''),
      Delete_by_vin ''V1'', Append (sample ''V2'' ''S2'' ''Lot B'')] Absent)"
  using header_kept_once_initialised
    [of Absent "[Append (sample ''V1'' ''S1'' ''Lot A''), Delete_by_vin ''V1'',
          Append (sample ''V2'' ''S2'' ''Lot B'')]" "[]"]
  by simp




text \<open>
  C9, as amended. On a store whose fields are within the reader's limit, where the last
  record matching the vin or the stock id has an empty current location,
  \<^verbatim>\<open>_find_previous_location\<close> does not return that empty value: it returns the current
  location of the last matching record whose current location is not empty, and
  \<^verbatim>\<open>None\<close> when every matching record has an empty one.
\<close>

theorem find_previous_location_skips_empty:
  assumes "list_all fits rs"
    and "last_match (\<lambda>e. e_vin e = v \<or> e_stock_id e = s) rs = Some e"
    and "e_current_location e = []"
  shows "find_previous_location v s (Content (store_file rs)) \<noteq> Inr (Some (e_current_location e)) \<and>
    find_previous_location v s (Content (store_file rs)) =
      Inr (map_option e_current_location
        (last_match (\<lambda>e. (e_vin e = v \<or> e_stock_id e = s) \<and> e_current_location e \<noteq> []) rs)) \<and>
    ((\<forall>r \<in> set rs. (e_vin r = v \<or> e_stock_id r = s) \<longrightarrow> e_current_location r = []) \<longrightarrow>
      find_previous_location v s (Content (store_file rs)) = Inr None)"
proof (intro conjI impI)
  let ?P = "\<lambda>e. (e_vin e = v \<or> e_stock_id e = s) \<and> e_current_location e \<noteq> []"
  show eq: "find_previous_location v s (Content (store_file rs)) =
      Inr (map_option e_current_location (last_match ?P rs))"
    by (rule find_previous_location_store [OF assms(1)])
  show "find_previous_location v s (Content (store_file rs)) \<noteq> Inr (Some (e_current_location e))"
  proof
    assume "find_previous_location v s (Content (store_file rs)) = Inr (Some (e_current_location e))"
    with eq assms(3) obtain y where "last_match ?P rs = Some y" "e_current_location y = []"
      by (cases "last_match ?P rs") auto
    with last_match_SomeD [of ?P rs y] show False by simp
  qed
  assume "\<forall>r \<in> set rs. (e_vin r = v \<or> e_stock_id r = s) \<longrightarrow> e_current_location r = []"
  then have "last_match ?P rs = None"
    by (auto simp: last_match_None_iff)
  with eq show "find_previous_location v s (Content (store_file rs)) = Inr None" by simp
qed

theorem find_previous_location_skips_empty_witness:
  "list_all fits [sample ''A'' ''S1'' ''L1'', sample ''A'' ''S1'' []] \<and>
   last_match (\<lambda>e. e_vin e = ''A'' \<or> e_stock_id e = ''S1'')
     [sample ''A'' ''S1'' ''L1'', sample ''A'' ''S1'' []] = Some (sample ''A'' ''S1'' []) \<and>
   e_current_location (sample ''A'' ''S1'' []) = [] \<and>
   find_previous_location ''A'' ''S1''
     (Content (store_file [sample ''A'' ''S1'' ''L1'', sample ''A'' ''S1'' []])) = Inr (Some ''L1'')"
proof -
  have fit: "list_all fits [sample ''A'' ''S1'' ''L1'', sample ''A'' ''S1'' []]"
    by (simp add: fits_sample within_limit_def field_limit_def)
  have h1: "last_match (\<lambda>e. e_vin e = ''A'' \<or> e_stock_id e = ''S1'')
      [sample ''A'' ''S1'' ''L1'', sample ''A'' ''S1'' []] = Some (sample ''A'' ''S1'' [])"
    by (simp add: last_match_def sample_def)
  have h2: "e_current_location (sample ''A'' ''S1'' []) = []"
    by (simp add: sample_def)
  from find_previous_location_skips_empty [OF fit h1 h2] fit h1 h2 show ?thesis
    by (simp add: last_match_def sample_def)
qed

text \<open>
  C9 as stated fails on a store that also holds a field of 131073 characters: the last
  matching record has an empty current location, and the lookup raises \<^verbatim>\<open>csv.Error\<close>
  where the claim has it return the location of the record before.
\<close>

theorem find_previous_location_skips_empty_oversized:
  "last_match (\<lambda>e. e_vin e = ''A'' \<or> e_stock_id e = ''S1'')
     [sample ''A'' ''S1'' oversized, sample ''A'' ''S1'' []] = Some (sample ''A'' ''S1'' []) \<and>
   e_current_location (sample ''A'' ''S1'' []) = [] \<and>
   find_previous_location ''A'' ''S1''
     (Content (store_file [sample ''A'' ''S1'' oversized, sample ''A'' ''S1'' []])) = Inl CsvError"
proof (intro conjI)
  have bad: "DictReader (store_file [sample ''A'' ''S1'' oversized, sample ''A'' ''S1'' []]) =
      Inl CsvError"
    using DictReader_oversized [of "''A''" "''S1''" "[]" "[sample ''A'' ''S1'' []]"]
    by (simp add: within_limit_def field_limit_def)
  show "last_match (\<lambda>e. e_vin e = ''A'' \<or> e_stock_id e = ''S1'')
      [sample ''A'' ''S1'' oversized, sample ''A'' ''S1'' []] = Some (sample ''A'' ''S1'' [])"
    by (simp add: last_match_def sample_def)
  show "e_current_location (sample ''A'' ''S1'' []) = []"
    by (simp add: sample_def)
  show "find_previous_location ''A'' ''S1''
      (Content (store_file [sample ''A'' ''S1'' oversized, sample ''A'' ''S1'' []])) = Inl CsvError"
    by (simp add: find_previous_location_def exists_file_def open_read_def bad)
qed

text \<open>
  C10. On an absent file \<^verbatim>\<open>_load_records\<close> returns the empty list and leaves the file
  created with the header row alone; so do the operations that only read: the lookup of
  the search page, both exports and the three downloads.
\<close>

theorem load_creates_absent_file:
  "load_records Absent = (Inr [], Content writeheader) \<and>
   writeheader =
     ''timestamp,handled_by,stock_id,vin,current_location,previous_location'' @ [CR, LF] \<and>
   snd (find_latest_record_by_vin v Absent) = Content writeheader \<and>
   (strip v \<noteq> [] \<longrightarrow> snd (search v Absent) = Content writeheader) \<and>
   snd (build_excel Absent) = Content writeheader \<and>
   snd (build_pdf Absent) = Content writeheader \<and>
   snd (download_csv Absent) = Content writeheader \<and>
   snd (download_excel Absent) = Content writeheader \<and>
   snd (download_pdf Absent) = Content writeheader"
proof -
  have load: "load_records Absent = (Inr [], Content writeheader)"
    using load_records_Absent by (simp add: store_file_Nil)
  have header: "writeheader =
      ''timestamp,handled_by,stock_id,vin,current_location,previous_location'' @ [CR, LF]"
    by code_simp
  have latest: "find_latest_record_by_vin w Absent = (Inr None, Content writeheader)" for w
    by (simp add: find_latest_record_by_vin_def load)
  have legal: "\<not> list_ex (list_ex illegal_cell) (excel_table [])"
    by code_simp
  have excel: "build_excel Absent = (Inr (excel_table []), Content writeheader)"
    by (simp add: build_excel_def load legal)
  have pdf: "build_pdf Absent = (Inr [headers], Content writeheader)"
    by (simp add: build_pdf_def load)
  have csv: "snd (download_csv Absent) = Content writeheader"
    by (simp add: download_csv_def init_csv_def exists_file_def)
  have search: "strip v \<noteq> [] \<longrightarrow> snd (search v Absent) = Content writeheader"
    by (simp add: search_def Let_def latest)
  show ?thesis
    using load header search csv
    by (simp add: latest excel pdf download_excel_def download_pdf_def)
qed

theorem load_creates_absent_file_witness:
  "strip '' A1 '' \<noteq> [] \<and> snd (search '' A1 '' Absent) = Content writeheader"
proof -
  have "strip '' A1 '' \<noteq> []" by code_simp
  with load_creates_absent_file [of "'' A1 ''"] show ?thesis by blast
qed

end
